theory Spec2Isabelle
  imports Main "HOL-Library.Word"
begin

unbundle bit_operations_syntax

section \<open>Bytes, status codes and little-endian fields\<close>

type_synonym byte = "8 word"

text \<open>
  Modelled from the spec: the status taxonomy of the library (its header is not part of
  the unit under study). Only the codes the backend produces or passes through are listed.
\<close>

datatype dc_status =
    DC_STATUS_SUCCESS
  | DC_STATUS_INVALIDARGS
  | DC_STATUS_NOMEMORY
  | DC_STATUS_IO
  | DC_STATUS_TIMEOUT
  | DC_STATUS_PROTOCOL
  | DC_STATUS_DATAFORMAT
  | DC_STATUS_CANCELLED

text \<open>
  Modelled from the spec: \<open>array_uint16_le\<close> and \<open>array_uint32_le\<close> of \<open>array.h\<close> decode
  a 16-bit and a 32-bit little-endian field. The argument is the list of bytes the C
  pointer designates (2 and 4 bytes); the result is held in an \<open>unsigned int\<close>.
\<close>

definition array_uint16_le :: "byte list \<Rightarrow> 32 word" where
  "array_uint16_le p = ucast (p ! 0) OR push_bit 8 (ucast (p ! 1))"

definition array_uint32_le :: "byte list \<Rightarrow> 32 word" where
  "array_uint32_le p =
     ucast (p ! 0) OR push_bit 8 (ucast (p ! 1)) OR
     push_bit 16 (ucast (p ! 2)) OR push_bit 24 (ucast (p ! 3))"

section \<open>Constants of \<open>mares_iconhd.c\<close>\<close>

abbreviation (input) MATRIX :: "32 word" where "MATRIX \<equiv> 0x0F"
abbreviation (input) SMART :: "32 word" where "SMART \<equiv> 0x000010"
abbreviation (input) SMARTAPNEA :: "32 word" where "SMARTAPNEA \<equiv> 0x010010"
abbreviation (input) ICONHD :: "32 word" where "ICONHD \<equiv> 0x14"
abbreviation (input) ICONHDNET :: "32 word" where "ICONHDNET \<equiv> 0x15"
abbreviation (input) PUCKPRO :: "32 word" where "PUCKPRO \<equiv> 0x18"
abbreviation (input) NEMOWIDE2 :: "32 word" where "NEMOWIDE2 \<equiv> 0x19"
abbreviation (input) PUCK2 :: "32 word" where "PUCK2 \<equiv> 0x1F"
abbreviation (input) QUADAIR :: "32 word" where "QUADAIR \<equiv> 0x23"
abbreviation (input) SMARTAIR :: "32 word" where "SMARTAIR \<equiv> 0x24"
abbreviation (input) QUAD :: "32 word" where "QUAD \<equiv> 0x29"

abbreviation (input) MAXRETRIES :: nat where "MAXRETRIES \<equiv> 4"

abbreviation (input) ACK :: byte where "ACK \<equiv> 0xAA"
abbreviation (input) EOF :: byte where "EOF \<equiv> 0xEA"

abbreviation (input) AIR :: "32 word" where "AIR \<equiv> 0"
abbreviation (input) GAUGE :: "32 word" where "GAUGE \<equiv> 1"
abbreviation (input) NITROX :: "32 word" where "NITROX \<equiv> 2"
abbreviation (input) FREEDIVE :: "32 word" where "FREEDIVE \<equiv> 3"

record mares_iconhd_layout_t =
  memsize :: "32 word"
  rb_profile_begin :: "32 word"
  rb_profile_end :: "32 word"

definition mares_iconhd_layout :: mares_iconhd_layout_t where
  "mares_iconhd_layout =
     \<lparr>memsize = 0x100000, rb_profile_begin = 0x00A000, rb_profile_end = 0x100000\<rparr>"

definition mares_iconhdnet_layout :: mares_iconhd_layout_t where
  "mares_iconhdnet_layout =
     \<lparr>memsize = 0x100000, rb_profile_begin = 0x00E000, rb_profile_end = 0x100000\<rparr>"

definition mares_matrix_layout :: mares_iconhd_layout_t where
  "mares_matrix_layout =
     \<lparr>memsize = 0x40000, rb_profile_begin = 0x0A000, rb_profile_end = 0x3E000\<rparr>"

definition mares_nemowide2_layout :: mares_iconhd_layout_t where
  "mares_nemowide2_layout =
     \<lparr>memsize = 0x40000, rb_profile_begin = 0x0A000, rb_profile_end = 0x40000\<rparr>"

section \<open>The transport and the device session\<close>

text \<open>
  Modelled from the spec: the transport (\<open>dc_iostream_t\<close>) is an external collaborator
  with blocking reads and writes that return a status and the actual byte count, a purge,
  configuration calls and a query of its kind. Its behaviour is an input of the model: the
  session carries the results of its upcoming calls.
  \<^item> \<open>io_rx\<close>: the result of each upcoming read call, the status and the bytes delivered
    (cut to the size asked for); once exhausted, a read times out with no data.
  \<^item> \<open>io_tx\<close>: the result of each upcoming write call, the status and how many bytes were
    accepted (at most those offered); once exhausted, a write accepts all its bytes.
  \<^item> \<open>io_ctl\<close>: the status of each upcoming configuration call; once exhausted, success.
  \<^item> \<open>io_log\<close>: what the backend did to the transport so far, in order.
\<close>

datatype dc_transport = DC_TRANSPORT_SERIAL | DC_TRANSPORT_BLE

datatype dc_direction = DC_DIRECTION_INPUT | DC_DIRECTION_OUTPUT | DC_DIRECTION_ALL

datatype dc_parity = DC_PARITY_NONE | DC_PARITY_ODD | DC_PARITY_EVEN

datatype dc_stopbits = DC_STOPBITS_ONE | DC_STOPBITS_ONEPOINTFIVE | DC_STOPBITS_TWO

datatype dc_flowcontrol = DC_FLOWCONTROL_NONE | DC_FLOWCONTROL_HARDWARE | DC_FLOWCONTROL_SOFTWARE

datatype io_event =
    Sent "byte list"
  | Purged dc_direction
  | Configured int int dc_parity dc_stopbits dc_flowcontrol
  | Timeout_set int
  | Dtr_set bool
  | Rts_set bool

record dc_iostream =
  io_transport :: dc_transport
  io_rx :: "(dc_status \<times> byte list) list"
  io_tx :: "(dc_status \<times> nat) list"
  io_ctl :: "dc_status list"
  io_log :: "io_event list"

definition dc_iostream_read :: "dc_iostream \<Rightarrow> nat \<Rightarrow> dc_status \<times> byte list \<times> dc_iostream" where
  "dc_iostream_read io n =
     (case io_rx io of
        [] \<Rightarrow> (DC_STATUS_TIMEOUT, [], io)
      | (rc, bs) # rest \<Rightarrow> (rc, take n bs, io\<lparr>io_rx := rest\<rparr>))"

definition dc_iostream_write :: "dc_iostream \<Rightarrow> byte list \<Rightarrow> dc_status \<times> nat \<times> dc_iostream" where
  "dc_iostream_write io bs =
     (case io_tx io of
        [] \<Rightarrow> (DC_STATUS_SUCCESS, length bs, io\<lparr>io_log := io_log io @ [Sent bs]\<rparr>)
      | (rc, k) # rest \<Rightarrow>
          (rc, min k (length bs),
           io\<lparr>io_tx := rest, io_log := io_log io @ [Sent (take k bs)]\<rparr>))"

definition dc_iostream_purge :: "dc_iostream \<Rightarrow> dc_direction \<Rightarrow> dc_iostream" where
  "dc_iostream_purge io dir = io\<lparr>io_log := io_log io @ [Purged dir]\<rparr>"

definition dc_iostream_control :: "dc_iostream \<Rightarrow> io_event \<Rightarrow> dc_status \<times> dc_iostream" where
  "dc_iostream_control io ev =
     (case io_ctl io of
        [] \<Rightarrow> (DC_STATUS_SUCCESS, io\<lparr>io_log := io_log io @ [ev]\<rparr>)
      | rc # rest \<Rightarrow> (rc, io\<lparr>io_ctl := rest, io_log := io_log io @ [ev]\<rparr>))"

text \<open>
  The session, \<open>mares_iconhd_device_t\<close>. The cancellation query of the device framework
  is external: \<open>dev_cancel\<close> holds the answer of each upcoming poll (none left: not
  cancelled). The layout pointer is a layout value; \<open>open\<close> returns a session only with
  its layout set.
\<close>

record mares_iconhd_device_t =
  dev_cancel :: "bool list"
  dev_iostream :: dc_iostream
  dev_layout :: mares_iconhd_layout_t
  dev_fingerprint :: "byte list"
  dev_version :: "byte list"
  dev_model :: "32 word"
  dev_packetsize :: "32 word"
  dev_cache :: "byte list"
  dev_available :: nat
  dev_offset :: nat

definition device_is_cancelled :: "mares_iconhd_device_t \<Rightarrow> bool \<times> mares_iconhd_device_t" where
  "device_is_cancelled d =
     (case dev_cancel d of
        [] \<Rightarrow> (False, d)
      | c # cs \<Rightarrow> (c, d\<lparr>dev_cancel := cs\<rparr>))"

section \<open>Chunked I/O adapter\<close>

text \<open>
  The refill of the 20-byte cache at the top of the loop body of \<open>mares_iconhd_read\<close>:
  on a packet transport with an empty cache, one packet is read into it.
\<close>

definition cache_fill :: "mares_iconhd_device_t \<Rightarrow> dc_status \<times> mares_iconhd_device_t" where
  "cache_fill d =
     (if io_transport (dev_iostream d) = DC_TRANSPORT_BLE \<and> dev_available d = 0 then
        (case dc_iostream_read (dev_iostream d) 20 of
           (rc, pkt, io') \<Rightarrow>
             if rc \<noteq> DC_STATUS_SUCCESS then (rc, d\<lparr>dev_iostream := io'\<rparr>)
             else (DC_STATUS_SUCCESS,
                   d\<lparr>dev_iostream := io',
                     dev_cache := pkt @ drop (length pkt) (dev_cache d),
                     dev_available := length pkt,
                     dev_offset := 0\<rparr>))
      else (DC_STATUS_SUCCESS, d))"

text \<open>
  The loop of \<open>mares_iconhd_read\<close>; \<open>nbytes\<close> is the length of the data received so far.
\<close>

function mares_iconhd_read_loop ::
  "mares_iconhd_device_t \<Rightarrow> nat \<Rightarrow> byte list \<Rightarrow> dc_status \<times> byte list \<times> mares_iconhd_device_t" where
  "mares_iconhd_read_loop d sz data =
     (if length data < sz then
        (case cache_fill d of
           (rc, d1) \<Rightarrow>
             if rc \<noteq> DC_STATUS_SUCCESS then (rc, data, d1)
             else if io_transport (dev_iostream d1) = DC_TRANSPORT_BLE then
               (let len = min (dev_available d1) (sz - length data) in
                mares_iconhd_read_loop
                  (d1\<lparr>dev_available := dev_available d1 - len,
                      dev_offset := dev_offset d1 + len\<rparr>)
                  sz
                  (data @ map (\<lambda>i. dev_cache d1 ! i) [dev_offset d1 ..< dev_offset d1 + len]))
             else
               (case dc_iostream_read (dev_iostream d1) (sz - length data) of
                  (rc, bs, io') \<Rightarrow>
                    if rc \<noteq> DC_STATUS_SUCCESS then (rc, data, d1\<lparr>dev_iostream := io'\<rparr>)
                    else mares_iconhd_read_loop (d1\<lparr>dev_iostream := io'\<rparr>) sz (data @ bs)))
      else (DC_STATUS_SUCCESS, data, d))"
  by pat_completeness auto
termination
proof (relation "measures [\<lambda>(d, sz, data). length (io_rx (dev_iostream d)),
                           \<lambda>(d, sz, data). dev_available d]", goal_cases)
  case 1
  show ?case by simp
next
  case 2
  then show ?case
    by (auto simp: cache_fill_def dc_iostream_read_def split: if_splits list.splits prod.splits)
next
  case 3
  then show ?case
    by (auto simp: cache_fill_def dc_iostream_read_def split: if_splits list.splits prod.splits)
qed

definition mares_iconhd_read ::
  "mares_iconhd_device_t \<Rightarrow> nat \<Rightarrow> dc_status \<times> byte list \<times> mares_iconhd_device_t" where
  "mares_iconhd_read d sz = mares_iconhd_read_loop d sz []"

function mares_iconhd_write_loop ::
  "mares_iconhd_device_t \<Rightarrow> byte list \<Rightarrow> nat \<Rightarrow> dc_status \<times> mares_iconhd_device_t" where
  "mares_iconhd_write_loop d data nbytes =
     (if nbytes < length data then
        (let len = (if io_transport (dev_iostream d) = DC_TRANSPORT_BLE
                    then min 20 (length data - nbytes) else length data - nbytes)
         in case dc_iostream_write (dev_iostream d) (take len (drop nbytes data)) of
              (rc, actual, io') \<Rightarrow>
                if rc \<noteq> DC_STATUS_SUCCESS then (rc, d\<lparr>dev_iostream := io'\<rparr>)
                else mares_iconhd_write_loop (d\<lparr>dev_iostream := io'\<rparr>) data (nbytes + actual))
      else (DC_STATUS_SUCCESS, d))"
  by pat_completeness auto
termination
proof (relation "measures [\<lambda>(d, data, nbytes). length (io_tx (dev_iostream d)),
                           \<lambda>(d, data, nbytes). length data - nbytes]", goal_cases)
  case 1
  show ?case by simp
next
  case 2
  then show ?case
    by (auto simp: dc_iostream_write_def split: if_splits list.splits prod.splits)
qed

definition mares_iconhd_write ::
  "mares_iconhd_device_t \<Rightarrow> byte list \<Rightarrow> dc_status \<times> mares_iconhd_device_t" where
  "mares_iconhd_write d data = mares_iconhd_write_loop d data 0"

definition rx_left :: "mares_iconhd_device_t \<Rightarrow> nat" where
  "rx_left d = length (io_rx (dev_iostream d))"

definition unread_le :: "mares_iconhd_device_t \<Rightarrow> mares_iconhd_device_t \<Rightarrow> bool" where
  "unread_le d' d \<longleftrightarrow> rx_left d' < rx_left d \<or> (rx_left d' = rx_left d \<and> dev_available d' \<le> dev_available d)"

definition unread_less :: "mares_iconhd_device_t \<Rightarrow> mares_iconhd_device_t \<Rightarrow> bool" where
  "unread_less d' d \<longleftrightarrow> rx_left d' < rx_left d \<or> (rx_left d' = rx_left d \<and> dev_available d' < dev_available d)"

definition same_session :: "mares_iconhd_device_t \<Rightarrow> mares_iconhd_device_t \<Rightarrow> bool" where
  "same_session d' d \<longleftrightarrow>
     dev_layout d' = dev_layout d \<and> dev_fingerprint d' = dev_fingerprint d \<and>
     dev_version d' = dev_version d \<and> dev_model d' = dev_model d \<and>
     dev_packetsize d' = dev_packetsize d \<and>
     io_transport (dev_iostream d') = io_transport (dev_iostream d)"

lemma unread_le_refl [simp]: "unread_le d d" by (simp add: unread_le_def)
lemma unread_le_trans: "unread_le a b \<Longrightarrow> unread_le b c \<Longrightarrow> unread_le a c"
  by (auto simp: unread_le_def)
lemma unread_less_le_trans: "unread_less a b \<Longrightarrow> unread_le b c \<Longrightarrow> unread_less a c"
  by (auto simp: unread_le_def unread_less_def)
lemma unread_le_less_trans: "unread_le a b \<Longrightarrow> unread_less b c \<Longrightarrow> unread_less a c"
  by (auto simp: unread_le_def unread_less_def)
lemma unread_less_imp_le: "unread_less a b \<Longrightarrow> unread_le a b"
  by (auto simp: unread_le_def unread_less_def)
lemma same_session_refl [simp]: "same_session d d" by (simp add: same_session_def)
lemma same_session_trans: "same_session a b \<Longrightarrow> same_session b c \<Longrightarrow> same_session a c"
  by (simp add: same_session_def)

lemma cache_fill_props:
  "cache_fill d = (rc, d1) \<Longrightarrow>
     unread_le d1 d \<and> same_session d1 d \<and> dev_cancel d1 = dev_cancel d \<and>
     io_tx (dev_iostream d1) = io_tx (dev_iostream d) \<and>
     io_log (dev_iostream d1) = io_log (dev_iostream d) \<and>
     (rc = DC_STATUS_SUCCESS \<and> io_transport (dev_iostream d) = DC_TRANSPORT_BLE \<and> dev_available d1 = 0
        \<longrightarrow> unread_less d1 d)"
  by (auto simp: cache_fill_def dc_iostream_read_def unread_le_def unread_less_def rx_left_def same_session_def
      split: if_splits list.splits prod.splits)

lemma read_loop_props:
  "mares_iconhd_read_loop d sz data = (rc, bs, d') \<Longrightarrow>
     unread_le d' d \<and> same_session d' d \<and> dev_cancel d' = dev_cancel d \<and>
     io_tx (dev_iostream d') = io_tx (dev_iostream d) \<and>
     io_log (dev_iostream d') = io_log (dev_iostream d) \<and>
     (rc = DC_STATUS_SUCCESS \<longrightarrow>
        (length data \<le> sz \<longrightarrow> length bs = sz) \<and> (length data < sz \<longrightarrow> unread_less d' d))"
proof (induction d sz data arbitrary: rc bs d' rule: mares_iconhd_read_loop.induct)
  case (1 d sz data)
  show ?case
  proof (cases "length data < sz")
    case False
    with "1.prems" show ?thesis by auto
  next
    case True
    obtain rc1 d1 where cf: "cache_fill d = (rc1, d1)" by (cases "cache_fill d")
    note cfp = cache_fill_props[OF cf]
    show ?thesis
    proof (cases "rc1 = DC_STATUS_SUCCESS")
      case False
      with True cf "1.prems" have "d' = d1" "rc = rc1" by simp_all
      with cfp False show ?thesis by simp
    next
      case ok: True
      show ?thesis
      proof (cases "io_transport (dev_iostream d1) = DC_TRANSPORT_BLE")
        case ble: True
        define len where "len = min (dev_available d1) (sz - length data)"
        define d2 where "d2 = d1\<lparr>dev_available := dev_available d1 - len, dev_offset := dev_offset d1 + len\<rparr>"
        define data2 where "data2 = data @ map (\<lambda>i. dev_cache d1 ! i) [dev_offset d1 ..< dev_offset d1 + len]"
        from True cf ok ble "1.prems" have run: "mares_iconhd_read_loop d2 sz data2 = (rc, bs, d')"
          by (simp add: len_def Let_def d2_def data2_def)
        from "1.IH"(1)[OF True cf[symmetric] _ ble len_def run[unfolded d2_def data2_def]] ok
        have ih: "unread_le d' d2 \<and> same_session d' d2 \<and> dev_cancel d' = dev_cancel d2 \<and>
           io_tx (dev_iostream d') = io_tx (dev_iostream d2) \<and>
           io_log (dev_iostream d') = io_log (dev_iostream d2) \<and>
           (rc = DC_STATUS_SUCCESS \<longrightarrow>
             (length data2 \<le> sz \<longrightarrow> length bs = sz) \<and> (length data2 < sz \<longrightarrow> unread_less d' d2))"
          by (simp add: d2_def data2_def)
        have d2le: "unread_le d2 d1" "same_session d2 d1" "dev_cancel d2 = dev_cancel d1"
            "dev_iostream d2 = dev_iostream d1"
          by (simp_all add: d2_def unread_le_def rx_left_def same_session_def)
        have len2: "length data2 = length data + len" by (simp add: data2_def)
        have lenle: "len \<le> sz - length data" by (simp add: len_def)
        have strict: "rc = DC_STATUS_SUCCESS \<Longrightarrow> unread_less d' d"
        proof -
          assume s: "rc = DC_STATUS_SUCCESS"
          show "unread_less d' d"
          proof (cases "dev_available d1 = 0")
            case True
            from cfp ok ble True cf have "unread_less d1 d"
              by (auto simp: cache_fill_def split: if_splits prod.splits)
            with ih d2le show ?thesis
              by (meson unread_le_less_trans unread_le_trans)
          next
            case False
            with \<open>length data < sz\<close> have "0 < len" by (simp add: len_def)
            then have "unread_less d2 d1" using False
              by (simp add: d2_def unread_less_def rx_left_def)
            with ih cfp show ?thesis
              by (meson unread_le_less_trans unread_less_le_trans)
          qed
        qed
        from ih d2le cfp len2 lenle True strict show ?thesis
          by (auto intro: unread_le_trans same_session_trans)
      next
        case nble: False
        obtain rc2 bs2 io2 where rd: "dc_iostream_read (dev_iostream d1) (sz - length data) = (rc2, bs2, io2)"
          by (cases "dc_iostream_read (dev_iostream d1) (sz - length data)")
        define d2 where "d2 = d1\<lparr>dev_iostream := io2\<rparr>"
        have io2: "unread_le d2 d1" "same_session d2 d1" "dev_cancel d2 = dev_cancel d1"
            "io_tx (dev_iostream d2) = io_tx (dev_iostream d1)"
            "io_log (dev_iostream d2) = io_log (dev_iostream d1)"
            "length bs2 \<le> sz - length data"
            "rc2 = DC_STATUS_SUCCESS \<Longrightarrow> unread_less d2 d1"
          using rd by (auto simp: d2_def dc_iostream_read_def unread_le_def unread_less_def rx_left_def same_session_def split: list.splits)
        show ?thesis
        proof (cases "rc2 = DC_STATUS_SUCCESS")
          case False
          with True cf ok nble rd "1.prems" have "d' = d2" "rc = rc2" by (simp_all add: d2_def)
          with cfp io2 False show ?thesis by (auto intro: unread_le_trans same_session_trans)
        next
          case ok2: True
          with True cf ok nble rd "1.prems" have
            run: "mares_iconhd_read_loop d2 sz (data @ bs2) = (rc, bs, d')" by (simp add: d2_def)
          from "1.IH"(2)[OF True cf[symmetric] _ nble rd[symmetric] _ _ run[unfolded d2_def]] ok ok2
          have ih: "unread_le d' d2 \<and> same_session d' d2 \<and> dev_cancel d' = dev_cancel d2 \<and>
           io_tx (dev_iostream d') = io_tx (dev_iostream d2) \<and>
           io_log (dev_iostream d') = io_log (dev_iostream d2) \<and>
           (rc = DC_STATUS_SUCCESS \<longrightarrow>
             (length (data @ bs2) \<le> sz \<longrightarrow> length bs = sz) \<and> (length (data @ bs2) < sz \<longrightarrow> unread_less d' d2))"
            by (simp add: d2_def)
          have "unread_less d2 d" using io2(7)[OF ok2] cfp by (meson unread_less_le_trans)
          then have strict: "unread_less d' d" using ih by (meson unread_le_less_trans)
          from ih io2 cfp True strict show ?thesis
            by (auto intro: unread_le_trans same_session_trans)
        qed
      qed
    qed
  qed
qed

lemma unread_less_measures:
  "unread_less d' d \<longleftrightarrow> (d', d) \<in> measures [rx_left, dev_available]"
  by (auto simp: unread_less_def)

text \<open>The bytes the transport accepted so far, in order.\<close>

fun sent_of :: "io_event \<Rightarrow> byte list" where
  "sent_of (Sent bs) = bs"
| "sent_of _ = []"

definition sent_bytes :: "dc_iostream \<Rightarrow> byte list" where
  "sent_bytes io = concat (map sent_of (io_log io))"

lemma write_loop_props:
  "mares_iconhd_write_loop d data nbytes = (rc, d') \<Longrightarrow>
     io_rx (dev_iostream d') = io_rx (dev_iostream d) \<and> dev_available d' = dev_available d \<and>
     dev_offset d' = dev_offset d \<and> dev_cache d' = dev_cache d \<and>
     same_session d' d \<and> dev_cancel d' = dev_cancel d \<and>
     (rc = DC_STATUS_SUCCESS \<and> nbytes \<le> length data \<longrightarrow>
        sent_bytes (dev_iostream d') = sent_bytes (dev_iostream d) @ drop nbytes data)"
proof (induction d data nbytes arbitrary: rc d' rule: mares_iconhd_write_loop.induct)
  case (1 d data nbytes)
  show ?case
  proof (cases "nbytes < length data")
    case False
    with "1.prems" show ?thesis by auto
  next
    case True
    define len where "len = (if io_transport (dev_iostream d) = DC_TRANSPORT_BLE
                    then min 20 (length data - nbytes) else length data - nbytes)"
    obtain rc1 actual io1 where wr:
      "dc_iostream_write (dev_iostream d) (take len (drop nbytes data)) = (rc1, actual, io1)"
      by (cases "dc_iostream_write (dev_iostream d) (take len (drop nbytes data))")
    define d1 where "d1 = d\<lparr>dev_iostream := io1\<rparr>"
    have lenle: "len \<le> length data - nbytes" by (simp add: len_def)
    have w: "io_rx io1 = io_rx (dev_iostream d)" "io_transport io1 = io_transport (dev_iostream d)"
      "actual \<le> len"
      "sent_bytes io1 = sent_bytes (dev_iostream d) @ take actual (drop nbytes data)"
      using wr lenle
      by (auto simp: dc_iostream_write_def sent_bytes_def min_def split: list.splits if_splits)
    have fr: "io_rx (dev_iostream d1) = io_rx (dev_iostream d)" "dev_available d1 = dev_available d"
      "dev_offset d1 = dev_offset d" "dev_cache d1 = dev_cache d" "same_session d1 d"
      "dev_cancel d1 = dev_cancel d"
      using w by (simp_all add: d1_def same_session_def)
    show ?thesis
    proof (cases "rc1 = DC_STATUS_SUCCESS")
      case False
      with True wr "1.prems" have "d' = d1" "rc = rc1" by (simp_all add: len_def Let_def d1_def)
      with fr False show ?thesis by simp
    next
      case ok: True
      with True wr "1.prems" have run: "mares_iconhd_write_loop d1 data (nbytes + actual) = (rc, d')"
        by (simp add: len_def Let_def d1_def)
      from "1.IH"[OF True len_def wr[symmetric] _ _ run[unfolded d1_def]] ok
      have ih: "io_rx (dev_iostream d') = io_rx (dev_iostream d1) \<and> dev_available d' = dev_available d1 \<and>
         dev_offset d' = dev_offset d1 \<and> dev_cache d' = dev_cache d1 \<and>
         same_session d' d1 \<and> dev_cancel d' = dev_cancel d1 \<and>
         (rc = DC_STATUS_SUCCESS \<and> nbytes + actual \<le> length data \<longrightarrow>
            sent_bytes (dev_iostream d') = sent_bytes (dev_iostream d1) @ drop (nbytes + actual) data)"
        by (simp add: d1_def)
      have "take actual (drop nbytes data) @ drop (nbytes + actual) data = drop nbytes data"
        by (metis add.commute append_take_drop_id drop_drop)
      with ih fr w lenle True show ?thesis
        by (auto simp: d1_def intro: same_session_trans)
    qed
  qed
qed

section \<open>Packet codec and retry engine\<close>

text \<open>
  \<open>mares_iconhd_packet\<close>. The command is a byte list (its length is \<open>csize\<close>), the answer
  is returned with the status. A failed \<open>assert (csize >= 2)\<close> aborts the process: the
  result is \<open>None\<close>. One-byte buffers start as \<open>{0}\<close>.
\<close>

definition first_byte :: "byte list \<Rightarrow> byte" where
  "first_byte bs = (case bs of [] \<Rightarrow> 0 | b # _ \<Rightarrow> b)"

definition mares_iconhd_packet ::
  "mares_iconhd_device_t \<Rightarrow> byte list \<Rightarrow> nat \<Rightarrow>
     (dc_status \<times> byte list \<times> mares_iconhd_device_t) option" where
  "mares_iconhd_packet device command asize =
     (if \<not> length command \<ge> 2 then None
      else case device_is_cancelled device of
        (cancelled, d0) \<Rightarrow>
          if cancelled then Some (DC_STATUS_CANCELLED, [], d0)
          else case mares_iconhd_write d0 (take 2 command) of
            (status, d1) \<Rightarrow>
              if status \<noteq> DC_STATUS_SUCCESS then Some (status, [], d1)
              else case mares_iconhd_read d1 1 of
                (status, header, d2) \<Rightarrow>
                  if status \<noteq> DC_STATUS_SUCCESS then Some (status, [], d2)
                  else if first_byte header \<noteq> ACK then Some (DC_STATUS_PROTOCOL, [], d2)
                  else case (if length command > 2
                             then mares_iconhd_write d2 (drop 2 command)
                             else (DC_STATUS_SUCCESS, d2)) of
                    (status, d3) \<Rightarrow>
                      if status \<noteq> DC_STATUS_SUCCESS then Some (status, [], d3)
                      else case mares_iconhd_read d3 asize of
                        (status, answer, d4) \<Rightarrow>
                          if status \<noteq> DC_STATUS_SUCCESS then Some (status, answer, d4)
                          else case mares_iconhd_read d4 1 of
                            (status, trailer, d5) \<Rightarrow>
                              if status \<noteq> DC_STATUS_SUCCESS then Some (status, answer, d5)
                              else if first_byte trailer \<noteq> EOF
                                then Some (DC_STATUS_PROTOCOL, answer, d5)
                              else Some (DC_STATUS_SUCCESS, answer, d5))"

text \<open>
  The loop of \<open>mares_iconhd_transfer\<close>, with \<open>nretries\<close> as its counter.
\<close>

function mares_iconhd_transfer_loop ::
  "mares_iconhd_device_t \<Rightarrow> byte list \<Rightarrow> nat \<Rightarrow> nat \<Rightarrow>
     (dc_status \<times> byte list \<times> mares_iconhd_device_t) option" where
  "mares_iconhd_transfer_loop device command asize nretries =
     (case mares_iconhd_packet device command asize of
        None \<Rightarrow> None
      | Some (rc, answer, d') \<Rightarrow>
          if rc = DC_STATUS_SUCCESS then Some (DC_STATUS_SUCCESS, answer, d')
          else if rc \<noteq> DC_STATUS_PROTOCOL \<and> rc \<noteq> DC_STATUS_TIMEOUT then Some (rc, answer, d')
          else if nretries \<ge> MAXRETRIES then Some (rc, answer, d')
          else mares_iconhd_transfer_loop
                 (d'\<lparr>dev_iostream := dc_iostream_purge (dev_iostream d') DC_DIRECTION_INPUT\<rparr>)
                 command asize (nretries + 1))"
  by pat_completeness auto
termination
  by (relation "measure (\<lambda>(device, command, asize, nretries). MAXRETRIES - nretries)") auto

definition mares_iconhd_transfer ::
  "mares_iconhd_device_t \<Rightarrow> byte list \<Rightarrow> nat \<Rightarrow>
     (dc_status \<times> byte list \<times> mares_iconhd_device_t) option" where
  "mares_iconhd_transfer device command asize = mares_iconhd_transfer_loop device command asize 0"

lemma read_props:
  "mares_iconhd_read d sz = (rc, bs, d') \<Longrightarrow>
     unread_le d' d \<and> same_session d' d \<and> dev_cancel d' = dev_cancel d \<and>
     io_tx (dev_iostream d') = io_tx (dev_iostream d) \<and>
     io_log (dev_iostream d') = io_log (dev_iostream d) \<and>
     (rc = DC_STATUS_SUCCESS \<longrightarrow> length bs = sz \<and> (0 < sz \<longrightarrow> unread_less d' d))"
  using read_loop_props[of d sz "[]" rc bs d'] by (simp add: mares_iconhd_read_def)

lemma write_props:
  "mares_iconhd_write d data = (rc, d') \<Longrightarrow>
     unread_le d' d \<and> same_session d' d \<and> dev_cancel d' = dev_cancel d \<and>
     (rc = DC_STATUS_SUCCESS \<longrightarrow>
        sent_bytes (dev_iostream d') = sent_bytes (dev_iostream d) @ data)"
  using write_loop_props[of d data 0 rc d']
  by (simp add: mares_iconhd_write_def unread_le_def rx_left_def)

lemma cancelled_props:
  "device_is_cancelled d = (c, d0) \<Longrightarrow>
     unread_le d0 d \<and> same_session d0 d \<and> dev_iostream d0 = dev_iostream d"
  by (auto simp: device_is_cancelled_def unread_le_def rx_left_def same_session_def split: list.splits)

lemma packet_unfold:
  assumes "2 \<le> length command"
    and "device_is_cancelled d = (c, d0)"
    and "mares_iconhd_write d0 (take 2 command) = (s1, d1)"
    and "mares_iconhd_read d1 1 = (s2, h, d2)"
    and "(if length command > 2 then mares_iconhd_write d2 (drop 2 command)
          else (DC_STATUS_SUCCESS, d2)) = (s3, d3)"
    and "mares_iconhd_read d3 asize = (s4, a, d4)"
    and "mares_iconhd_read d4 1 = (s5, t, d5)"
  shows "mares_iconhd_packet d command asize =
     Some (if c then (DC_STATUS_CANCELLED, [], d0)
           else if s1 \<noteq> DC_STATUS_SUCCESS then (s1, [], d1)
           else if s2 \<noteq> DC_STATUS_SUCCESS then (s2, [], d2)
           else if first_byte h \<noteq> ACK then (DC_STATUS_PROTOCOL, [], d2)
           else if s3 \<noteq> DC_STATUS_SUCCESS then (s3, [], d3)
           else if s4 \<noteq> DC_STATUS_SUCCESS then (s4, a, d4)
           else if s5 \<noteq> DC_STATUS_SUCCESS then (s5, a, d5)
           else if first_byte t \<noteq> EOF then (DC_STATUS_PROTOCOL, a, d5)
           else (DC_STATUS_SUCCESS, a, d5))"
  unfolding mares_iconhd_packet_def
  using assms by simp

lemma packet_props:
  assumes "mares_iconhd_packet d command asize = Some (rc, ans, d')"
  shows "unread_le d' d \<and> same_session d' d \<and>
         (rc = DC_STATUS_SUCCESS \<longrightarrow> unread_less d' d \<and> length ans = asize)"
proof -
  have len: "2 \<le> length command"
    using assms unfolding mares_iconhd_packet_def by (cases "2 \<le> length command") simp_all
  obtain c d0 where c: "device_is_cancelled d = (c, d0)" by (cases "device_is_cancelled d")
  obtain s1 d1 where w1: "mares_iconhd_write d0 (take 2 command) = (s1, d1)"
    by (cases "mares_iconhd_write d0 (take 2 command)")
  obtain s2 h d2 where r1: "mares_iconhd_read d1 1 = (s2, h, d2)"
    by (cases "mares_iconhd_read d1 1") auto
  obtain s3 d3 where w2: "(if length command > 2 then mares_iconhd_write d2 (drop 2 command)
                             else (DC_STATUS_SUCCESS, d2)) = (s3, d3)"
    by (cases "(if length command > 2 then mares_iconhd_write d2 (drop 2 command)
                             else (DC_STATUS_SUCCESS, d2))")
  obtain s4 a d4 where r2: "mares_iconhd_read d3 asize = (s4, a, d4)"
    by (cases "mares_iconhd_read d3 asize") auto
  obtain s5 t d5 where r3: "mares_iconhd_read d4 1 = (s5, t, d5)"
    by (cases "mares_iconhd_read d4 1") auto
  note p0 = cancelled_props[OF c]
  note p1 = write_props[OF w1]
  note p2 = read_props[OF r1]
  have p3: "unread_le d3 d2 \<and> same_session d3 d2"
  proof (cases "length command > 2")
    case True
    with w2 have "mares_iconhd_write d2 (drop 2 command) = (s3, d3)" by simp
    from write_props[OF this] show ?thesis by simp
  next
    case False
    with w2 show ?thesis by simp
  qed
  note p4 = read_props[OF r2]
  note p5 = read_props[OF r3]
  have le0: "unread_le d0 d" using p0 by simp
  have le1: "unread_le d1 d" using p0 p1 by (blast intro: unread_le_trans)
  have le2: "unread_le d2 d" using le1 p2 by (blast intro: unread_le_trans)
  have le3: "unread_le d3 d" using le2 p3 by (blast intro: unread_le_trans)
  have le4: "unread_le d4 d" using le3 p4 by (blast intro: unread_le_trans)
  have le5: "unread_le d5 d" using le4 p5 by (blast intro: unread_le_trans)
  have ss0: "same_session d0 d" using p0 by simp
  have ss1: "same_session d1 d" using p0 p1 by (blast intro: same_session_trans)
  have ss2: "same_session d2 d" using ss1 p2 by (blast intro: same_session_trans)
  have ss3: "same_session d3 d" using ss2 p3 by (blast intro: same_session_trans)
  have ss4: "same_session d4 d" using ss3 p4 by (blast intro: same_session_trans)
  have ss5: "same_session d5 d" using ss4 p5 by (blast intro: same_session_trans)
  have strict: "unread_less d5 d" if "s2 = DC_STATUS_SUCCESS"
  proof -
    from that p2 have "unread_less d2 d1" by simp
    with le1 have "unread_less d2 d" by (blast intro: unread_less_le_trans)
    moreover have "unread_le d5 d2" using p3 p4 p5 by (blast intro: unread_le_trans)
    ultimately show ?thesis by (blast intro: unread_le_less_trans)
  qed
  have alen: "length a = asize" if "s4 = DC_STATUS_SUCCESS" using that p4 by simp
  note u = assms[unfolded packet_unfold[OF len c w1 r1 w2 r2 r3]]
  consider (a) "c" | (b) "\<not> c" "s1 \<noteq> DC_STATUS_SUCCESS"
    | (c) "\<not> c" "s1 = DC_STATUS_SUCCESS" "s2 \<noteq> DC_STATUS_SUCCESS"
    | (d) "\<not> c" "s1 = DC_STATUS_SUCCESS" "s2 = DC_STATUS_SUCCESS" "first_byte h \<noteq> ACK"
    | (e) "\<not> c" "s1 = DC_STATUS_SUCCESS" "s2 = DC_STATUS_SUCCESS" "first_byte h = ACK"
          "s3 \<noteq> DC_STATUS_SUCCESS"
    | (f) "\<not> c" "s1 = DC_STATUS_SUCCESS" "s2 = DC_STATUS_SUCCESS" "first_byte h = ACK"
          "s3 = DC_STATUS_SUCCESS" "s4 \<noteq> DC_STATUS_SUCCESS"
    | (g) "\<not> c" "s1 = DC_STATUS_SUCCESS" "s2 = DC_STATUS_SUCCESS" "first_byte h = ACK"
          "s3 = DC_STATUS_SUCCESS" "s4 = DC_STATUS_SUCCESS" "s5 \<noteq> DC_STATUS_SUCCESS"
    | (h) "\<not> c" "s1 = DC_STATUS_SUCCESS" "s2 = DC_STATUS_SUCCESS" "first_byte h = ACK"
          "s3 = DC_STATUS_SUCCESS" "s4 = DC_STATUS_SUCCESS" "s5 = DC_STATUS_SUCCESS"
    by blast
  then show ?thesis
  proof cases
    case a with u le0 ss0 show ?thesis by simp
  next
    case b with u le1 ss1 show ?thesis by simp
  next
    case c with u le2 ss2 show ?thesis by simp
  next
    case d with u le2 ss2 show ?thesis by simp
  next
    case e with u le3 ss3 show ?thesis by simp
  next
    case f with u le4 ss4 show ?thesis by simp
  next
    case g with u le5 ss5 show ?thesis by simp
  next
    case h with u le5 ss5 strict alen show ?thesis by (simp split: if_splits)
  qed
qed

lemma purge_props:
  "unread_le (d\<lparr>dev_iostream := dc_iostream_purge (dev_iostream d) dir\<rparr>) d \<and>
   same_session (d\<lparr>dev_iostream := dc_iostream_purge (dev_iostream d) dir\<rparr>) d"
  by (simp add: dc_iostream_purge_def unread_le_def rx_left_def same_session_def)

lemma transfer_loop_props:
  "mares_iconhd_transfer_loop d command asize n = Some (rc, ans, d') \<Longrightarrow>
     unread_le d' d \<and> same_session d' d \<and>
     (rc = DC_STATUS_SUCCESS \<longrightarrow> unread_less d' d \<and> length ans = asize)"
proof (induction d command asize n arbitrary: rc ans d' rule: mares_iconhd_transfer_loop.induct)
  case (1 d command asize n)
  from "1.prems" obtain rc1 ans1 d1 where pk: "mares_iconhd_packet d command asize = Some (rc1, ans1, d1)"
    by (cases "mares_iconhd_packet d command asize") auto
  note pp = packet_props[OF pk]
  show ?case
  proof (cases "rc1 = DC_STATUS_SUCCESS \<or> (rc1 \<noteq> DC_STATUS_PROTOCOL \<and> rc1 \<noteq> DC_STATUS_TIMEOUT) \<or> n \<ge> MAXRETRIES")
    case True
    with pk "1.prems" have "rc = rc1" "ans = ans1" "d' = d1" by (auto split: if_splits)
    with pp show ?thesis by simp
  next
    case False
    define d2 where "d2 = d1\<lparr>dev_iostream := dc_iostream_purge (dev_iostream d1) DC_DIRECTION_INPUT\<rparr>"
    from False pk "1.prems" have run: "mares_iconhd_transfer_loop d2 command asize (n + 1) = Some (rc, ans, d')"
      by (auto simp: d2_def)
    from False have "rc1 \<noteq> DC_STATUS_SUCCESS" "\<not> (rc1 \<noteq> DC_STATUS_PROTOCOL \<and> rc1 \<noteq> DC_STATUS_TIMEOUT)" "\<not> n \<ge> MAXRETRIES"
      by auto
    from "1.IH"[OF pk refl refl this run[unfolded d2_def]]
    have ih: "unread_le d' d2 \<and> same_session d' d2 \<and>
     (rc = DC_STATUS_SUCCESS \<longrightarrow> unread_less d' d2 \<and> length ans = asize)"
      by (simp add: d2_def)
    have "unread_le d2 d" "same_session d2 d"
      using purge_props[of d1 DC_DIRECTION_INPUT] pp
      by (auto simp: d2_def intro: unread_le_trans same_session_trans)
    with ih show ?thesis
      by (auto intro: unread_le_trans same_session_trans unread_less_le_trans)
  qed
qed

lemma transfer_props:
  "mares_iconhd_transfer d command asize = Some (rc, ans, d') \<Longrightarrow>
     unread_le d' d \<and> same_session d' d \<and>
     (rc = DC_STATUS_SUCCESS \<longrightarrow> unread_less d' d \<and> length ans = asize)"
  unfolding mares_iconhd_transfer_def by (rule transfer_loop_props)

section \<open>Chunked memory reader\<close>

text \<open>
  The loop of \<open>mares_iconhd_device_read\<close>: \<open>data\<close> is what was copied to the caller's
  buffer so far. A successful transfer consumed input of the transport (at least the two
  framing bytes), which is why the loop ends on every finite transport even with a packet
  size of zero.
\<close>

function mares_iconhd_device_read_loop ::
  "mares_iconhd_device_t \<Rightarrow> 32 word \<Rightarrow> 32 word \<Rightarrow> 32 word \<Rightarrow> byte list \<Rightarrow>
     (dc_status \<times> byte list \<times> mares_iconhd_device_t) option" where
  "mares_iconhd_device_read_loop device address sz nbytes data =
     (if nbytes < sz then
        (let len = (if sz - nbytes > dev_packetsize device then dev_packetsize device
                    else sz - nbytes);
             command = [0xE7, 0x42,
                        ucast (address AND 0xFF),
                        ucast (drop_bit 8 address AND 0xFF),
                        ucast (drop_bit 16 address AND 0xFF),
                        ucast (drop_bit 24 address AND 0xFF),
                        ucast (len AND 0xFF),
                        ucast (drop_bit 8 len AND 0xFF),
                        ucast (drop_bit 16 len AND 0xFF),
                        ucast (drop_bit 24 len AND 0xFF)]
         in case mares_iconhd_transfer device command (unat len) of
              None \<Rightarrow> None
            | Some (rc, answer, d') \<Rightarrow>
                if rc \<noteq> DC_STATUS_SUCCESS then Some (rc, data, d')
                else mares_iconhd_device_read_loop d' (address + len) sz (nbytes + len)
                       (data @ answer))
      else Some (DC_STATUS_SUCCESS, data, device))"
  by pat_completeness auto
termination
proof (relation "inv_image (measures [rx_left, dev_available])
                   (\<lambda>(device, address, sz, nbytes, data). device)", goal_cases)
  case 1
  show ?case by simp
next
  case (2 device address sz nbytes data len command x rc y answer d')
  then have "mares_iconhd_transfer device command (unat len) = Some (DC_STATUS_SUCCESS, answer, d')"
    by simp
  from transfer_props[OF this] have "unread_less d' device" by simp
  then show ?case by (simp add: unread_less_measures)
qed

definition mares_iconhd_device_read ::
  "mares_iconhd_device_t \<Rightarrow> 32 word \<Rightarrow> 32 word \<Rightarrow>
     (dc_status \<times> byte list \<times> mares_iconhd_device_t) option" where
  "mares_iconhd_device_read device address sz =
     mares_iconhd_device_read_loop device address sz 0 []"

section \<open>Claims about the packet codec and the retry engine\<close>

definition demo_io :: dc_iostream where
  "demo_io = \<lparr>io_transport = DC_TRANSPORT_SERIAL,
              io_rx = [(DC_STATUS_SUCCESS, [0xAA]), (DC_STATUS_SUCCESS, [0x78, 0x56, 0x34, 0x12]),
                       (DC_STATUS_SUCCESS, [0xEA])],
              io_tx = [], io_ctl = [], io_log = []\<rparr>"

definition demo_device :: mares_iconhd_device_t where
  "demo_device = \<lparr>dev_cancel = [], dev_iostream = demo_io, dev_layout = mares_nemowide2_layout,
     dev_fingerprint = replicate 10 0, dev_version = replicate 140 0, dev_model = SMART,
     dev_packetsize = 256, dev_cache = replicate 20 0, dev_available = 0, dev_offset = 0\<rparr>"

definition demo_command :: "byte list" where
  "demo_command = [0xE7, 0x42, 0x0C, 0, 0, 0, 4, 0, 0, 0]"

lemma first_byte_single: "length bs = 1 \<Longrightarrow> first_byte bs = b \<longleftrightarrow> bs = [b]"
  by (cases bs) (auto simp: first_byte_def)

text \<open>
  C7. For a command of at least 2 bytes, with the results of the steps of \<open>packet\<close> named:
  a cancelled session gives CANCELLED and the transport is untouched; otherwise the first
  two command bytes are written, one header byte is read and must be 0xAA (else PROTOCOL),
  the rest of the command is written, exactly \<open>asize\<close> answer bytes are read, one trailer
  byte is read and must be 0xEA (else PROTOCOL); a failing step returns its own status;
  the result is SUCCESS exactly when no step failed and both framing bytes matched.
\<close>

theorem packet_exchange:
  assumes "2 \<le> length command"
    and "device_is_cancelled device = (cancelled, d0)"
    and "mares_iconhd_write d0 (take 2 command) = (s1, d1)"
    and "mares_iconhd_read d1 1 = (s2, header, d2)"
    and "(if length command > 2 then mares_iconhd_write d2 (drop 2 command)
          else (DC_STATUS_SUCCESS, d2)) = (s3, d3)"
    and "mares_iconhd_read d3 asize = (s4, answer, d4)"
    and "mares_iconhd_read d4 1 = (s5, trailer, d5)"
  shows "mares_iconhd_packet device command asize =
           Some (if cancelled then (DC_STATUS_CANCELLED, [], d0)
                 else if s1 \<noteq> DC_STATUS_SUCCESS then (s1, [], d1)
                 else if s2 \<noteq> DC_STATUS_SUCCESS then (s2, [], d2)
                 else if first_byte header \<noteq> 0xAA then (DC_STATUS_PROTOCOL, [], d2)
                 else if s3 \<noteq> DC_STATUS_SUCCESS then (s3, [], d3)
                 else if s4 \<noteq> DC_STATUS_SUCCESS then (s4, answer, d4)
                 else if s5 \<noteq> DC_STATUS_SUCCESS then (s5, answer, d5)
                 else if first_byte trailer \<noteq> 0xEA then (DC_STATUS_PROTOCOL, answer, d5)
                 else (DC_STATUS_SUCCESS, answer, d5)) \<and>
         dev_iostream d0 = dev_iostream device \<and>
         (s1 = DC_STATUS_SUCCESS \<longrightarrow>
            sent_bytes (dev_iostream d1) = sent_bytes (dev_iostream d0) @ take 2 command) \<and>
         (s2 = DC_STATUS_SUCCESS \<longrightarrow> length header = 1) \<and>
         (s3 = DC_STATUS_SUCCESS \<longrightarrow>
            sent_bytes (dev_iostream d3) = sent_bytes (dev_iostream d2) @ drop 2 command) \<and>
         (s4 = DC_STATUS_SUCCESS \<longrightarrow> length answer = asize) \<and>
         (s5 = DC_STATUS_SUCCESS \<longrightarrow> length trailer = 1) \<and>
         ((\<exists>ans d'. mares_iconhd_packet device command asize = Some (DC_STATUS_SUCCESS, ans, d')) \<longleftrightarrow>
            \<not> cancelled \<and> s1 = DC_STATUS_SUCCESS \<and> s2 = DC_STATUS_SUCCESS \<and> header = [0xAA] \<and>
            s3 = DC_STATUS_SUCCESS \<and> s4 = DC_STATUS_SUCCESS \<and> s5 = DC_STATUS_SUCCESS \<and>
            trailer = [0xEA])"
proof -
  note u = packet_unfold[OF assms]
  have io0: "dev_iostream d0 = dev_iostream device"
    using cancelled_props[OF assms(2)] by simp
  have w1: "s1 = DC_STATUS_SUCCESS \<longrightarrow>
            sent_bytes (dev_iostream d1) = sent_bytes (dev_iostream d0) @ take 2 command"
    using write_props[OF assms(3)] by simp
  have h: "s2 = DC_STATUS_SUCCESS \<longrightarrow> length header = 1"
    using read_props[OF assms(4)] by simp
  have w2: "s3 = DC_STATUS_SUCCESS \<longrightarrow>
            sent_bytes (dev_iostream d3) = sent_bytes (dev_iostream d2) @ drop 2 command"
  proof (cases "length command > 2")
    case True
    with assms(5) have "mares_iconhd_write d2 (drop 2 command) = (s3, d3)" by simp
    from write_props[OF this] show ?thesis by simp
  next
    case False
    with assms(5) show ?thesis by simp
  qed
  have a: "s4 = DC_STATUS_SUCCESS \<longrightarrow> length answer = asize"
    using read_props[OF assms(6)] by simp
  have t: "s5 = DC_STATUS_SUCCESS \<longrightarrow> length trailer = 1"
    using read_props[OF assms(7)] by simp
  have ok: "(\<exists>ans d'. mares_iconhd_packet device command asize = Some (DC_STATUS_SUCCESS, ans, d')) \<longleftrightarrow>
            \<not> cancelled \<and> s1 = DC_STATUS_SUCCESS \<and> s2 = DC_STATUS_SUCCESS \<and> header = [0xAA] \<and>
            s3 = DC_STATUS_SUCCESS \<and> s4 = DC_STATUS_SUCCESS \<and> s5 = DC_STATUS_SUCCESS \<and>
            trailer = [0xEA]"
    unfolding u using h t by (auto simp: first_byte_single split: if_splits)
  from u io0 w1 h w2 a t ok show ?thesis by blast
qed

theorem packet_exchange_witness:
  "mares_iconhd_packet demo_device demo_command 4 =
     Some (DC_STATUS_SUCCESS, [0x78, 0x56, 0x34, 0x12],
           demo_device\<lparr>dev_iostream :=
             demo_io\<lparr>io_rx := [], io_log := [Sent [0xE7, 0x42], Sent [0x0C, 0, 0, 0, 4, 0, 0, 0]]\<rparr>\<rparr>)"
proof -
  define io1 where "io1 = demo_io\<lparr>io_log := [Sent [0xE7, 0x42]]\<rparr>"
  define io2 where "io2 = io1\<lparr>io_rx := tl (io_rx demo_io)\<rparr>"
  define io3 where "io3 = io2\<lparr>io_log := [Sent [0xE7, 0x42], Sent [0x0C, 0, 0, 0, 4, 0, 0, 0]]\<rparr>"
  define io4 where "io4 = io3\<lparr>io_rx := [(DC_STATUS_SUCCESS, [0xEA])]\<rparr>"
  define io5 where "io5 = io4\<lparr>io_rx := []\<rparr>"
  have h1: "2 \<le> length demo_command" by (simp add: demo_command_def)
  have h2: "device_is_cancelled demo_device = (False, demo_device)"
    by (simp add: device_is_cancelled_def demo_device_def)
  have h3: "mares_iconhd_write demo_device (take 2 demo_command) =
              (DC_STATUS_SUCCESS, demo_device\<lparr>dev_iostream := io1\<rparr>)"
    unfolding io1_def by code_simp
  have h4: "mares_iconhd_read (demo_device\<lparr>dev_iostream := io1\<rparr>) 1 =
              (DC_STATUS_SUCCESS, [0xAA], demo_device\<lparr>dev_iostream := io2\<rparr>)"
    unfolding io1_def io2_def by code_simp
  have h5: "(if length demo_command > 2
             then mares_iconhd_write (demo_device\<lparr>dev_iostream := io2\<rparr>) (drop 2 demo_command)
             else (DC_STATUS_SUCCESS, demo_device\<lparr>dev_iostream := io2\<rparr>)) =
              (DC_STATUS_SUCCESS, demo_device\<lparr>dev_iostream := io3\<rparr>)"
    unfolding io1_def io2_def io3_def by code_simp
  have h6: "mares_iconhd_read (demo_device\<lparr>dev_iostream := io3\<rparr>) 4 =
              (DC_STATUS_SUCCESS, [0x78, 0x56, 0x34, 0x12], demo_device\<lparr>dev_iostream := io4\<rparr>)"
    unfolding io1_def io2_def io3_def io4_def by code_simp
  have h7: "mares_iconhd_read (demo_device\<lparr>dev_iostream := io4\<rparr>) 1 =
              (DC_STATUS_SUCCESS, [0xEA], demo_device\<lparr>dev_iostream := io5\<rparr>)"
    unfolding io1_def io2_def io3_def io4_def io5_def by code_simp
  have e: "io5 = demo_io\<lparr>io_rx := [], io_log := [Sent [0xE7, 0x42], Sent [0x0C, 0, 0, 0, 4, 0, 0, 0]]\<rparr>"
    unfolding io1_def io2_def io3_def io4_def io5_def by (simp add: demo_io_def)
  from packet_exchange[OF h1 h2 h3 h4 h5 h6 h7] show ?thesis
    by (simp add: first_byte_def e)
qed

text \<open>
  The retry discipline in the words of the spec, to compare \<open>mares_iconhd_transfer\<close> with:
  attempt 0 is \<open>packet\<close> on the session as it is; attempt \<open>k + 1\<close> is attempt \<open>k\<close> of the
  session left by a first try whose buffered input was purged.
\<close>

fun attempt ::
  "mares_iconhd_device_t \<Rightarrow> byte list \<Rightarrow> nat \<Rightarrow> nat \<Rightarrow>
     (dc_status \<times> byte list \<times> mares_iconhd_device_t) option" where
  "attempt device command asize 0 = mares_iconhd_packet device command asize"
| "attempt device command asize (Suc k) =
     (case mares_iconhd_packet device command asize of
        None \<Rightarrow> None
      | Some (rc, answer, d') \<Rightarrow>
          attempt (d'\<lparr>dev_iostream := dc_iostream_purge (dev_iostream d') DC_DIRECTION_INPUT\<rparr>)
            command asize k)"

definition retried :: "(dc_status \<times> byte list \<times> mares_iconhd_device_t) option \<Rightarrow> bool" where
  "retried r = (case r of
                  None \<Rightarrow> False
                | Some (rc, answer, d') \<Rightarrow> rc = DC_STATUS_PROTOCOL \<or> rc = DC_STATUS_TIMEOUT)"

lemma transfer_loop_attempt:
  "n + k \<le> MAXRETRIES \<Longrightarrow>
   (\<forall>j<k. retried (attempt device command asize j)) \<Longrightarrow>
   attempt device command asize k = Some (rc, answer, d') \<Longrightarrow>
   (rc \<noteq> DC_STATUS_PROTOCOL \<and> rc \<noteq> DC_STATUS_TIMEOUT) \<or> n + k = MAXRETRIES \<Longrightarrow>
   mares_iconhd_transfer_loop device command asize n = Some (rc, answer, d')"
proof (induction k arbitrary: device n)
  case 0
  then show ?case by (auto simp: mares_iconhd_transfer_loop.simps[of device])
next
  case (Suc k)
  from Suc.prems(2) have r0: "retried (attempt device command asize 0)" by blast
  then obtain rc0 a0 d0 where p: "mares_iconhd_packet device command asize = Some (rc0, a0, d0)"
    and rc0: "rc0 = DC_STATUS_PROTOCOL \<or> rc0 = DC_STATUS_TIMEOUT"
    by (auto simp: retried_def split: option.splits)
  define d1 where "d1 = d0\<lparr>dev_iostream := dc_iostream_purge (dev_iostream d0) DC_DIRECTION_INPUT\<rparr>"
  have shift: "attempt device command asize (Suc j) = attempt d1 command asize j" for j
    using p by (simp add: d1_def)
  have "\<forall>j<k. retried (attempt d1 command asize j)"
    using Suc.prems(2) shift by (metis Suc_less_eq)
  moreover have "attempt d1 command asize k = Some (rc, answer, d')"
    using Suc.prems(3) shift by simp
  moreover have "Suc n + k \<le> MAXRETRIES" using Suc.prems(1) by simp
  moreover have "(rc \<noteq> DC_STATUS_PROTOCOL \<and> rc \<noteq> DC_STATUS_TIMEOUT) \<or> Suc n + k = MAXRETRIES"
    using Suc.prems(4) by simp
  ultimately have "mares_iconhd_transfer_loop d1 command asize (Suc n) = Some (rc, answer, d')"
    using Suc.IH by blast
  moreover have "n < MAXRETRIES" using Suc.prems(1) by simp
  ultimately show ?case
    using p rc0 by (auto simp: mares_iconhd_transfer_loop.simps[of device] d1_def)
qed

text \<open>
  C6. \<open>transfer\<close> returns the result of attempt \<open>k\<close> (status, answer and session state, so
  nothing is tried or purged after it), where \<open>k \<le> 4\<close> is the first attempt that does not
  fail with PROTOCOL or TIMEOUT, or \<open>k = 4\<close>, the fifth attempt, when all five fail so:
  success ends the loop at once, any other failure is returned without a retry, and the
  fifth PROTOCOL or TIMEOUT failure is returned unchanged.
\<close>

theorem transfer_retries:
  assumes "k \<le> MAXRETRIES"
    and "\<forall>j<k. retried (attempt device command asize j)"
    and "attempt device command asize k = Some (rc, answer, d')"
    and "(rc \<noteq> DC_STATUS_PROTOCOL \<and> rc \<noteq> DC_STATUS_TIMEOUT) \<or> k = MAXRETRIES"
  shows "mares_iconhd_transfer device command asize = Some (rc, answer, d')"
  unfolding mares_iconhd_transfer_def
  using transfer_loop_attempt[of 0 k device command asize rc answer d'] assms by simp

definition retry_io :: dc_iostream where
  "retry_io = \<lparr>io_transport = DC_TRANSPORT_SERIAL,
               io_rx = [(DC_STATUS_SUCCESS, [0x55]),
                        (DC_STATUS_SUCCESS, [0xAA]), (DC_STATUS_SUCCESS, [0x78, 0x56, 0x34, 0x12]),
                        (DC_STATUS_SUCCESS, [0xEA])],
               io_tx = [], io_ctl = [], io_log = []\<rparr>"

definition retry_device :: mares_iconhd_device_t where
  "retry_device = demo_device\<lparr>dev_iostream := retry_io\<rparr>"

theorem transfer_retries_witness:
  "mares_iconhd_transfer retry_device demo_command 4 =
     Some (DC_STATUS_SUCCESS, [0x78, 0x56, 0x34, 0x12],
           retry_device\<lparr>dev_iostream :=
             retry_io\<lparr>io_rx := [],
                       io_log := [Sent [0xE7, 0x42], Purged DC_DIRECTION_INPUT,
                                  Sent [0xE7, 0x42], Sent [0x0C, 0, 0, 0, 4, 0, 0, 0]]\<rparr>\<rparr>)"
proof -
  have h1: "(1::nat) \<le> MAXRETRIES" by simp
  have a0: "attempt retry_device demo_command 4 0 =
              Some (DC_STATUS_PROTOCOL, [],
                    retry_device\<lparr>dev_iostream :=
                      retry_io\<lparr>io_rx := tl (io_rx retry_io), io_log := [Sent [0xE7, 0x42]]\<rparr>\<rparr>)"
    by code_simp
  have h2: "\<forall>j<1. retried (attempt retry_device demo_command 4 j)"
    using a0 by (simp add: retried_def)
  have h3: "attempt retry_device demo_command 4 1 =
     Some (DC_STATUS_SUCCESS, [0x78, 0x56, 0x34, 0x12],
           retry_device\<lparr>dev_iostream :=
             retry_io\<lparr>io_rx := [],
                       io_log := [Sent [0xE7, 0x42], Purged DC_DIRECTION_INPUT,
                                  Sent [0xE7, 0x42], Sent [0x0C, 0, 0, 0, 4, 0, 0, 0]]\<rparr>\<rparr>)"
    by code_simp
  show ?thesis
    by (rule transfer_retries[OF h1 h2 h3]) simp
qed

section \<open>Model detector\<close>

text \<open>
  A name of the table of \<open>mares_iconhd_get_model\<close>: \<open>unsigned char name[16 + 1]\<close>
  initialised from a string literal, so padded with NUL bytes; \<open>memcmp\<close> looks at its
  first 16 bytes.
\<close>

definition model_name :: "string \<Rightarrow> byte list" where
  "model_name s = take 16 (map of_char s @ replicate 16 0)"

definition models :: "(byte list \<times> 32 word) list" where
  "models =
     [(model_name ''Matrix'', MATRIX),
      (model_name ''Smart'', SMART),
      (model_name ''Smart Apnea'', SMARTAPNEA),
      (model_name ''Icon HD'', ICONHD),
      (model_name ''Icon AIR'', ICONHDNET),
      (model_name ''Puck Pro'', PUCKPRO),
      (model_name ''Nemo Wide 2'', NEMOWIDE2),
      (model_name ''Puck 2'', PUCK2),
      (model_name ''Quad Air'', QUADAIR),
      (model_name ''Smart Air'', SMARTAIR),
      (model_name ''Quad'', QUAD)]"

text \<open>The 16 bytes \<open>memcmp\<close> reads at \<open>device->version + 0x46\<close>.\<close>

definition version_name :: "byte list \<Rightarrow> byte list" where
  "version_name ver = take 16 (drop 0x46 ver)"

fun get_model_loop :: "byte list \<Rightarrow> (byte list \<times> 32 word) list \<Rightarrow> 32 word" where
  "get_model_loop ver [] = 0"
| "get_model_loop ver ((name, ident) # rest) =
     (if version_name ver = name then ident else get_model_loop ver rest)"

definition mares_iconhd_get_model :: "mares_iconhd_device_t \<Rightarrow> 32 word" where
  "mares_iconhd_get_model device = get_model_loop (dev_version device) models"

text \<open>The \<open>switch\<close> of \<open>mares_iconhd_device_open\<close>: the layout and the packet size of a model.\<close>

definition load_layout :: "32 word \<Rightarrow> mares_iconhd_layout_t \<times> 32 word" where
  "load_layout model =
     (if model = MATRIX then (mares_matrix_layout, 256)
      else if model = PUCKPRO \<or> model = PUCK2 \<or> model = NEMOWIDE2 \<or> model = SMART \<or>
              model = SMARTAPNEA \<or> model = QUAD then (mares_nemowide2_layout, 256)
      else if model = QUADAIR \<or> model = SMARTAIR then (mares_iconhdnet_layout, 256)
      else if model = ICONHDNET then (mares_iconhdnet_layout, 4096)
      else (mares_iconhd_layout, 4096))"

text \<open>
  \<open>mares_iconhd_device_open\<close>. The first argument stands for \<open>dc_device_allocate\<close>:
  \<open>None\<close> when the allocation fails, else the cancellation polls of the new session. The
  session is the returned value (the \<open>out\<close> pointer of the source); the outer \<open>None\<close> is an
  aborted process, as for \<open>packet\<close>. On every error the session is freed and only the
  status is returned.
\<close>

definition mares_iconhd_device_open ::
  "bool list option \<Rightarrow> dc_iostream \<Rightarrow> (dc_status \<times> mares_iconhd_device_t option) option" where
  "mares_iconhd_device_open allocation iostream =
     (case allocation of
        None \<Rightarrow> Some (DC_STATUS_NOMEMORY, None)
      | Some polls \<Rightarrow>
          (case dc_iostream_control iostream (Configured 115200 8 DC_PARITY_EVEN DC_STOPBITS_ONE DC_FLOWCONTROL_NONE) of
             (status, io1) \<Rightarrow>
               if status \<noteq> DC_STATUS_SUCCESS then Some (status, None)
               else case dc_iostream_control io1 (Timeout_set 1000) of
                 (status, io2) \<Rightarrow>
                   if status \<noteq> DC_STATUS_SUCCESS then Some (status, None)
                   else case dc_iostream_control io2 (Dtr_set False) of
                     (status, io3) \<Rightarrow>
                       if status \<noteq> DC_STATUS_SUCCESS then Some (status, None)
                       else case dc_iostream_control io3 (Rts_set False) of
                         (status, io4) \<Rightarrow>
                           if status \<noteq> DC_STATUS_SUCCESS then Some (status, None)
                           else
                             (let device =
                                    \<lparr>dev_cancel = polls,
                                     dev_iostream = dc_iostream_purge io4 DC_DIRECTION_ALL,
                                     dev_layout = mares_iconhd_layout,
                                     dev_fingerprint = replicate 10 0,
                                     dev_version = replicate 140 0,
                                     dev_model = 0,
                                     dev_packetsize = 0,
                                     dev_cache = replicate 20 0,
                                     dev_available = 0,
                                     dev_offset = 0\<rparr>
                              in case mares_iconhd_transfer device [0xC2, 0x67] 140 of
                                   None \<Rightarrow> None
                                 | Some (status, version, d1) \<Rightarrow>
                                     if status \<noteq> DC_STATUS_SUCCESS then Some (status, None)
                                     else
                                       (let d2 = d1\<lparr>dev_version := version\<rparr>;
                                            model = mares_iconhd_get_model d2;
                                            (layout, packetsize) = load_layout model
                                        in Some (DC_STATUS_SUCCESS,
                                                 Some (d2\<lparr>dev_model := model,
                                                          dev_layout := layout,
                                                          dev_packetsize := packetsize\<rparr>))))))"

lemma get_model_loop_find:
  "get_model_loop ver ms =
     (case find (\<lambda>(name, ident). version_name ver = name) ms of
        None \<Rightarrow> 0
      | Some (name, ident) \<Rightarrow> ident)"
  by (induction ms) auto

lemma get_model_loop_none:
  "version_name ver \<notin> fst ` set ms \<Longrightarrow> get_model_loop ver ms = 0"
  by (induction ms) auto

lemma open_session:
  assumes "mares_iconhd_device_open allocation iostream = Some (DC_STATUS_SUCCESS, Some d)"
  shows "length (dev_version d) = 140 \<and> dev_model d = mares_iconhd_get_model d \<and>
         (dev_layout d, dev_packetsize d) = load_layout (dev_model d)"
proof -
  from assms obtain polls io1 io2 io3 io4 version d1 where
    t: "mares_iconhd_transfer
          \<lparr>dev_cancel = polls, dev_iostream = dc_iostream_purge io4 DC_DIRECTION_ALL,
           dev_layout = mares_iconhd_layout, dev_fingerprint = replicate 10 0,
           dev_version = replicate 140 0, dev_model = 0, dev_packetsize = 0,
           dev_cache = replicate 20 0, dev_available = 0, dev_offset = 0\<rparr>
          [0xC2, 0x67] 140 = Some (DC_STATUS_SUCCESS, version, d1)"
    and d: "d = (let d2 = d1\<lparr>dev_version := version\<rparr>;
                    model = mares_iconhd_get_model d2;
                    (layout, packetsize) = load_layout model
                in d2\<lparr>dev_model := model, dev_layout := layout, dev_packetsize := packetsize\<rparr>)"
    unfolding mares_iconhd_device_open_def
    by (auto simp: Let_def split: option.splits prod.splits if_splits)
  from transfer_props[OF t] have "length version = 140" by simp
  with d show ?thesis
    by (auto simp: Let_def mares_iconhd_get_model_def split: prod.splits)
qed



section \<open>Claim about model detection\<close>

text \<open>
  C8. After a successful \<open>open\<close>, the model of the session is the identifier of the first
  entry of the name table whose 16 NUL-padded bytes equal bytes \<open>[0x46, 0x46 + 16)\<close> of
  the 140-byte version blob, and 0 when no entry matches. A name field \<open>Puck 2\<close> gives the
  nemowide2 layout and a packet size of 256; an unrecognised name gives model 0, the iconhd
  layout and a packet size of 4096.
\<close>

lemma models_bytes:
  "models =
     [([0x4D, 0x61, 0x74, 0x72, 0x69, 0x78, 0x00, 0x00, 0x00, 0x00, 0x00, 0x00, 0x00, 0x00, 0x00, 0x00], MATRIX),
      ([0x53, 0x6D, 0x61, 0x72, 0x74, 0x00, 0x00, 0x00, 0x00, 0x00, 0x00, 0x00, 0x00, 0x00, 0x00, 0x00], SMART),
      ([0x53, 0x6D, 0x61, 0x72, 0x74, 0x20, 0x41, 0x70, 0x6E, 0x65, 0x61, 0x00, 0x00, 0x00, 0x00, 0x00], SMARTAPNEA),
      ([0x49, 0x63, 0x6F, 0x6E, 0x20, 0x48, 0x44, 0x00, 0x00, 0x00, 0x00, 0x00, 0x00, 0x00, 0x00, 0x00], ICONHD),
      ([0x49, 0x63, 0x6F, 0x6E, 0x20, 0x41, 0x49, 0x52, 0x00, 0x00, 0x00, 0x00, 0x00, 0x00, 0x00, 0x00], ICONHDNET),
      ([0x50, 0x75, 0x63, 0x6B, 0x20, 0x50, 0x72, 0x6F, 0x00, 0x00, 0x00, 0x00, 0x00, 0x00, 0x00, 0x00], PUCKPRO),
      ([0x4E, 0x65, 0x6D, 0x6F, 0x20, 0x57, 0x69, 0x64, 0x65, 0x20, 0x32, 0x00, 0x00, 0x00, 0x00, 0x00], NEMOWIDE2),
      ([0x50, 0x75, 0x63, 0x6B, 0x20, 0x32, 0x00, 0x00, 0x00, 0x00, 0x00, 0x00, 0x00, 0x00, 0x00, 0x00], PUCK2),
      ([0x51, 0x75, 0x61, 0x64, 0x20, 0x41, 0x69, 0x72, 0x00, 0x00, 0x00, 0x00, 0x00, 0x00, 0x00, 0x00], QUADAIR),
      ([0x53, 0x6D, 0x61, 0x72, 0x74, 0x20, 0x41, 0x69, 0x72, 0x00, 0x00, 0x00, 0x00, 0x00, 0x00, 0x00], SMARTAIR),
      ([0x51, 0x75, 0x61, 0x64, 0x00, 0x00, 0x00, 0x00, 0x00, 0x00, 0x00, 0x00, 0x00, 0x00, 0x00, 0x00], QUAD)]"
  by code_simp

lemma puck2_bytes:
  "model_name ''Puck 2'' = [0x50, 0x75, 0x63, 0x6B, 0x20, 0x32, 0, 0, 0, 0, 0, 0, 0, 0, 0, 0]"
  by code_simp

theorem model_detection:
  assumes "mares_iconhd_device_open allocation iostream = Some (DC_STATUS_SUCCESS, Some d)"
  shows "length (dev_version d) = 140 \<and>
         version_name (dev_version d) = take 16 (drop 0x46 (dev_version d)) \<and>
         dev_model d =
           (case find (\<lambda>(name, ident). version_name (dev_version d) = name) models of
              None \<Rightarrow> 0
            | Some (name, ident) \<Rightarrow> ident) \<and>
         (version_name (dev_version d) = model_name ''Puck 2'' \<longrightarrow>
            dev_model d = PUCK2 \<and> dev_layout d = mares_nemowide2_layout \<and>
            dev_packetsize d = 256) \<and>
         (version_name (dev_version d) \<notin> fst ` set models \<longrightarrow>
            dev_model d = 0 \<and> dev_layout d = mares_iconhd_layout \<and> dev_packetsize d = 4096)"
proof -
  note s = open_session[OF assms]
  have m: "dev_model d = get_model_loop (dev_version d) models"
    using s by (simp add: mares_iconhd_get_model_def)
  have puck: "dev_model d = PUCK2 \<and> dev_layout d = mares_nemowide2_layout \<and> dev_packetsize d = 256"
    if "version_name (dev_version d) = model_name ''Puck 2''"
  proof -
    from that m have "dev_model d = PUCK2"
      by (simp add: models_bytes puck2_bytes)
    with s show ?thesis by (simp add: load_layout_def)
  qed
  have unknown: "dev_model d = 0 \<and> dev_layout d = mares_iconhd_layout \<and> dev_packetsize d = 4096"
    if "version_name (dev_version d) \<notin> fst ` set models"
  proof -
    from that m have "dev_model d = 0" by (simp add: get_model_loop_none)
    with s show ?thesis by (simp add: load_layout_def)
  qed
  from s m puck unknown show ?thesis
    by (simp add: get_model_loop_find version_name_def)
qed

definition version_io :: "byte list \<Rightarrow> dc_iostream" where
  "version_io name =
     \<lparr>io_transport = DC_TRANSPORT_SERIAL,
      io_rx = [(DC_STATUS_SUCCESS, [0xAA]),
               (DC_STATUS_SUCCESS, replicate 0x46 0 @ name @ replicate 54 0),
               (DC_STATUS_SUCCESS, [0xEA])],
      io_tx = [], io_ctl = [], io_log = []\<rparr>"

definition opened :: "(dc_status \<times> mares_iconhd_device_t option) option \<Rightarrow> mares_iconhd_device_t option" where
  "opened r = (case r of Some (DC_STATUS_SUCCESS, Some d) \<Rightarrow> Some d | _ \<Rightarrow> None)"

lemma opened_Some:
  "opened r = Some d \<Longrightarrow> r = Some (DC_STATUS_SUCCESS, Some d)"
  by (auto simp: opened_def split: option.splits prod.splits dc_status.splits)

theorem model_detection_witness:
  "(\<exists>d. mares_iconhd_device_open (Some []) (version_io (model_name ''Puck 2'')) =
           Some (DC_STATUS_SUCCESS, Some d) \<and>
         version_name (dev_version d) = model_name ''Puck 2'' \<and>
         dev_model d = PUCK2 \<and> dev_layout d = mares_nemowide2_layout \<and> dev_packetsize d = 256) \<and>
   (\<exists>d. mares_iconhd_device_open (Some []) (version_io (model_name ''Nemo'')) =
           Some (DC_STATUS_SUCCESS, Some d) \<and>
         version_name (dev_version d) \<notin> fst ` set models \<and>
         dev_model d = 0 \<and> dev_layout d = mares_iconhd_layout \<and> dev_packetsize d = 4096)"
proof -
  have "opened (mares_iconhd_device_open (Some []) (version_io (model_name ''Puck 2''))) \<noteq> None"
    by code_simp
  then obtain d1 where o1: "mares_iconhd_device_open (Some []) (version_io (model_name ''Puck 2'')) =
           Some (DC_STATUS_SUCCESS, Some d1)"
    by (auto dest: opened_Some)
  have "map_option (\<lambda>d. version_name (dev_version d))
          (opened (mares_iconhd_device_open (Some []) (version_io (model_name ''Puck 2'')))) =
        Some (model_name ''Puck 2'')"
    by code_simp
  with o1 have n1: "version_name (dev_version d1) = model_name ''Puck 2''"
    by (simp add: opened_def)
  have "opened (mares_iconhd_device_open (Some []) (version_io (model_name ''Nemo''))) \<noteq> None"
    by code_simp
  then obtain d2 where o2: "mares_iconhd_device_open (Some []) (version_io (model_name ''Nemo'')) =
           Some (DC_STATUS_SUCCESS, Some d2)"
    by (auto dest: opened_Some)
  have "map_option (\<lambda>d. version_name (dev_version d))
          (opened (mares_iconhd_device_open (Some []) (version_io (model_name ''Nemo'')))) =
        Some (model_name ''Nemo'')"
    by code_simp
  with o2 have "version_name (dev_version d2) = model_name ''Nemo''"
    by (simp add: opened_def)
  moreover have "model_name ''Nemo'' \<notin> fst ` set models"
    by code_simp
  ultimately have n2: "version_name (dev_version d2) \<notin> fst ` set models" by simp
  from model_detection[OF o1] n1 o1 model_detection[OF o2] n2 o2 show ?thesis by blast
qed

section \<open>Ring-buffer dive enumerator\<close>

text \<open>
  Modelled from the spec: the ring accessor (\<open>dc_rbstream_t\<close> of \<open>rbstream.h\<close>) is an
  external collaborator, constructed over \<open>[begin, end)\<close> and anchored at a write
  pointer; a read delivers the \<open>n\<close> bytes that end at its cursor, stepping backward and
  wrapping from \<open>begin\<close> to \<open>end\<close>, and moves the cursor to their start. The device memory
  it reads and the status of each of its calls are inputs of the model. \<open>rb_sizes\<close> logs
  the size asked for by each read.
\<close>

record dc_rbstream_t =
  rb_memory :: "32 word \<Rightarrow> byte"
  rb_begin :: "32 word"
  rb_end :: "32 word"
  rb_address :: "32 word"
  rb_results :: "dc_status list"
  rb_sizes :: "nat list"

fun rb_fetch ::
  "(32 word \<Rightarrow> byte) \<Rightarrow> 32 word \<Rightarrow> 32 word \<Rightarrow> 32 word \<Rightarrow> nat \<Rightarrow> byte list \<times> 32 word" where
  "rb_fetch mem b e a 0 = ([], a)"
| "rb_fetch mem b e a (Suc n) =
     (let a' = (if a = b then e else a) - 1
      in case rb_fetch mem b e a' n of (bs, a'') \<Rightarrow> (bs @ [mem a'], a''))"

definition dc_rbstream_read ::
  "dc_rbstream_t \<Rightarrow> nat \<Rightarrow> dc_status \<times> byte list \<times> dc_rbstream_t" where
  "dc_rbstream_read rb n =
     (let rc = (case rb_results rb of [] \<Rightarrow> DC_STATUS_SUCCESS | r # rest \<Rightarrow> r);
          rb1 = rb\<lparr>rb_results := tl (rb_results rb), rb_sizes := rb_sizes rb @ [n]\<rparr>
      in if rc \<noteq> DC_STATUS_SUCCESS then (rc, [], rb1)
         else case rb_fetch (rb_memory rb) (rb_begin rb) (rb_end rb) (rb_address rb) n of
                (bs, a) \<Rightarrow> (DC_STATUS_SUCCESS, bs, rb1\<lparr>rb_address := a\<rparr>))"

text \<open>
  What \<open>foreach\<close> gets from its collaborators besides the transport: the device memory
  behind the ring accessor, the status of \<open>dc_rbstream_new\<close> and of each
  \<open>dc_rbstream_read\<close>, whether \<open>malloc\<close> succeeds, and the content of fresh memory.
\<close>

record foreach_env =
  env_memory :: "32 word \<Rightarrow> byte"
  env_rbstream_new :: dc_status
  env_rbstream_read :: "dc_status list"
  env_malloc :: bool
  env_fresh :: "int \<Rightarrow> byte"

definition dc_rbstream_new ::
  "foreach_env \<Rightarrow> 32 word \<Rightarrow> 32 word \<Rightarrow> 32 word \<Rightarrow> dc_status \<times> dc_rbstream_t" where
  "dc_rbstream_new env b e address =
     (env_rbstream_new env,
      \<lparr>rb_memory = env_memory env, rb_begin = b, rb_end = e, rb_address = address,
       rb_results = env_rbstream_read env, rb_sizes = []\<rparr>)"

text \<open>
  The scratch buffer of \<open>foreach\<close> is a store from indices to bytes; only indices in
  \<open>[0, size)\<close> belong to the allocation. \<open>store\<close> writes a run of bytes, \<open>load\<close> reads one.
\<close>

definition store :: "(int \<Rightarrow> byte) \<Rightarrow> int \<Rightarrow> byte list \<Rightarrow> (int \<Rightarrow> byte)" where
  "store buf i bs = (\<lambda>k. if i \<le> k \<and> k < i + int (length bs) then bs ! nat (k - i) else buf k)"

definition load :: "(int \<Rightarrow> byte) \<Rightarrow> int \<Rightarrow> nat \<Rightarrow> byte list" where
  "load buf i n = map (\<lambda>j. buf (i + int j)) [0..<n]"

text \<open>The variables of the loop of \<open>foreach\<close> that change from one iteration to the next.\<close>

record foreach_state =
  fs_rc :: dc_status
  fs_rbstream :: dc_rbstream_t
  fs_buffer :: "int \<Rightarrow> byte"
  fs_offset :: "32 word"

text \<open>
  \<open>rc = dc_rbstream_read (rbstream, &progress, buffer + pos, n)\<close>: \<open>None\<close> when the
  destination \<open>[pos, pos + n)\<close> is not inside the allocation of \<open>bufsize\<close> bytes (the C
  program would write outside its buffer).
\<close>

definition rb_read_into ::
  "32 word \<Rightarrow> foreach_state \<Rightarrow> int \<Rightarrow> 32 word \<Rightarrow> foreach_state option" where
  "rb_read_into bufsize st pos n =
     (if pos < 0 \<or> uint bufsize < pos + uint n then None
      else case dc_rbstream_read (fs_rbstream st) (unat n) of
             (rc, bs, rb') \<Rightarrow>
               Some (st\<lparr>fs_rc := rc, fs_rbstream := rb',
                        fs_buffer := (if rc = DC_STATUS_SUCCESS then store (fs_buffer st) pos bs
                                      else fs_buffer st)\<rparr>))"

text \<open>The size of the first read of an iteration (\<open>header\<close> in the source).\<close>

definition dive_header :: "32 word \<Rightarrow> 32 word" where
  "dive_header model =
     (if model = ICONHDNET then 0x80
      else if model = QUADAIR then 0x84
      else if model = SMART \<or> model = SMARTAIR then 4
      else if model = SMARTAPNEA then 6
      else 0x5C)"

text \<open>The header size, the sample size and the fingerprint offset of a model and dive mode.\<close>

definition dive_sizes :: "32 word \<Rightarrow> 32 word \<Rightarrow> 32 word \<times> 32 word \<times> 32 word" where
  "dive_sizes model mode =
     (if model = ICONHDNET then (0x80, 12, 6)
      else if model = QUADAIR then (0x84, 12, 6)
      else if model = SMART then
        (if mode = FREEDIVE then (0x2E, 6, 0x20) else (0x5C, 8, 2))
      else if model = SMARTAPNEA then (0x50, 14, 0x40)
      else if model = SMARTAIR then (0x84, 12, 2)
      else (0x5C, 8, 6))"

text \<open>The total number of bytes of a dive; \<open>hdr\<close> is the index of its header in the buffer.\<close>

definition dive_nbytes ::
  "32 word \<Rightarrow> (int \<Rightarrow> byte) \<Rightarrow> int \<Rightarrow> 32 word \<Rightarrow> 32 word \<Rightarrow> 32 word \<Rightarrow> 32 word" where
  "dive_nbytes model buffer hdr headersize samplesize nsamples =
     (let nbytes = 4 + headersize + nsamples * samplesize
      in if model = ICONHDNET \<or> model = QUADAIR \<or> model = SMARTAIR then
           nbytes + (nsamples div 4) * 8
         else if model = SMARTAPNEA then
           (let settings = array_uint16_le (load buffer (hdr + 0x1C) 2);
                divetime = array_uint32_le (load buffer (hdr + 0x24) 4);
                samplerate = push_bit (unat (drop_bit 9 settings AND 0x03)) (1 :: 32 word)
            in nbytes + divetime * samplerate * 2)
         else nbytes)"

text \<open>What the callback of \<open>foreach\<close> is given; \<open>dv_offset\<close> is where \<open>data\<close> points in the buffer.\<close>

record dive_t =
  dv_offset :: "32 word"
  dv_data :: "byte list"
  dv_size :: "32 word"
  dv_fingerprint :: "byte list"
  dv_fsize :: "32 word"

datatype step = Fault | Stop foreach_state | Dive dive_t foreach_state

text \<open>
  One iteration of the loop of \<open>foreach\<close>, from its condition to the length check:
  \<open>Stop\<close> when the loop is left (by its condition, a \<open>break\<close> or a \<open>return rc\<close>) and
  \<open>foreach\<close> returns the \<open>rc\<close> of the state; \<open>Dive\<close> with the dive reconstructed and the state for the
  next iteration; \<open>Fault\<close> when an access falls outside the allocated buffer.
\<close>

definition foreach_body :: "32 word \<Rightarrow> 32 word \<Rightarrow> foreach_state \<Rightarrow> step" where
  "foreach_body model bufsize st =
     (let header = dive_header model; offset = fs_offset st
      in if \<not> offset \<ge> header + 4 then Stop st
         else case rb_read_into bufsize st (uint offset - uint header) header of
           None \<Rightarrow> Fault
         | Some st1 \<Rightarrow>
             if fs_rc st1 \<noteq> DC_STATUS_SUCCESS then Stop st1
             else
               (let smart = (model = SMART \<or> model = SMARTAPNEA \<or> model = SMARTAIR);
                    dtype = array_uint16_le (load (fs_buffer st1)
                              (uint offset - uint header + (if smart then 2 else 0)) 2);
                    nsamples = array_uint16_le (load (fs_buffer st1)
                              (uint offset - uint header + (if smart then 0 else 2)) 2)
                in if nsamples = 0xFFFF \<or> dtype = 0xFFFF then Stop st1
                   else case dive_sizes model (dtype AND 0x03) of
                     (headersize, samplesize, fingerprint) \<Rightarrow>
                       if offset < headersize then Stop st1
                       else case rb_read_into bufsize st1 (uint offset - uint headersize)
                                   (headersize - header) of
                         None \<Rightarrow> Fault
                       | Some st2 \<Rightarrow>
                           if fs_rc st2 \<noteq> DC_STATUS_SUCCESS then Stop st2
                           else
                             (let nbytes = dive_nbytes model (fs_buffer st2)
                                             (uint offset - uint headersize)
                                             headersize samplesize nsamples
                              in if offset < nbytes then Stop st2
                                 else case rb_read_into bufsize st2 (uint offset - uint nbytes)
                                             (nbytes - headersize) of
                                   None \<Rightarrow> Fault
                                 | Some st3 \<Rightarrow>
                                     if fs_rc st3 \<noteq> DC_STATUS_SUCCESS then Stop st3
                                     else
                                       (let offset' = offset - nbytes
                                        in if uint bufsize < uint offset' + 4 then Fault
                                           else
                                             (let len = array_uint32_le
                                                          (load (fs_buffer st3) (uint offset') 4)
                                              in if len \<noteq> nbytes then Stop st3
                                                 else
                                                   (let fp = uint offset' + uint len
                                                             - uint headersize + uint fingerprint
                                                    in if fp < 0 \<or> uint bufsize < fp + 10 then Fault
                                                       else Dive
                                                         \<lparr>dv_offset = offset',
                                                          dv_data = load (fs_buffer st3)
                                                                      (uint offset') (unat len),
                                                          dv_size = len,
                                                          dv_fingerprint = load (fs_buffer st3) fp 10,
                                                          dv_fsize = 10\<rparr>
                                                         (st3\<lparr>fs_offset := offset'\<rparr>)))))))"

lemma dive_sizes_bounds:
  "dive_sizes model mode = (headersize, samplesize, fingerprint) \<Longrightarrow>
     dive_header model \<le> headersize \<and> 0x2E \<le> headersize \<and> headersize \<le> 0x84 \<and>
     fingerprint + 10 \<le> headersize \<and> fingerprint \<le> 0x40 \<and>
     samplesize \<le> 14 \<and> dive_header model \<le> 0x84 \<and> 4 \<le> dive_header model \<and>
     (model = SMARTAPNEA \<longrightarrow> headersize = 0x50)"
  by (auto simp: dive_sizes_def dive_header_def split: if_splits)

lemma rb_read_into_Some:
  "rb_read_into bufsize st pos n = Some st1 \<Longrightarrow>
     0 \<le> pos \<and> pos + uint n \<le> uint bufsize \<and> fs_offset st1 = fs_offset st"
  by (auto simp: rb_read_into_def split: if_splits prod.splits)

lemma foreach_body_DiveE:
  assumes "foreach_body model bufsize st = Dive dv st'"
  obtains st1 st2 st3 dtype nsamples headersize samplesize fingerprint nbytes where
    "dive_header model + 4 \<le> fs_offset st"
    "rb_read_into bufsize st (uint (fs_offset st) - uint (dive_header model)) (dive_header model)
       = Some st1"
    "fs_rc st1 = DC_STATUS_SUCCESS"
    "dtype = array_uint16_le (load (fs_buffer st1)
               (uint (fs_offset st) - uint (dive_header model) +
                (if model = SMART \<or> model = SMARTAPNEA \<or> model = SMARTAIR then 2 else 0)) 2)"
    "nsamples = array_uint16_le (load (fs_buffer st1)
               (uint (fs_offset st) - uint (dive_header model) +
                (if model = SMART \<or> model = SMARTAPNEA \<or> model = SMARTAIR then 0 else 2)) 2)"
    "nsamples \<noteq> 0xFFFF" "dtype \<noteq> 0xFFFF"
    "dive_sizes model (dtype AND 0x03) = (headersize, samplesize, fingerprint)"
    "headersize \<le> fs_offset st"
    "rb_read_into bufsize st1 (uint (fs_offset st) - uint headersize)
       (headersize - dive_header model) = Some st2"
    "fs_rc st2 = DC_STATUS_SUCCESS"
    "nbytes = dive_nbytes model (fs_buffer st2) (uint (fs_offset st) - uint headersize)
                headersize samplesize nsamples"
    "nbytes \<le> fs_offset st"
    "rb_read_into bufsize st2 (uint (fs_offset st) - uint nbytes) (nbytes - headersize) = Some st3"
    "fs_rc st3 = DC_STATUS_SUCCESS"
    "uint (fs_offset st - nbytes) + 4 \<le> uint bufsize"
    "array_uint32_le (load (fs_buffer st3) (uint (fs_offset st - nbytes)) 4) = nbytes"
    "0 \<le> uint (fs_offset st - nbytes) + uint nbytes - uint headersize + uint fingerprint"
    "uint (fs_offset st - nbytes) + uint nbytes - uint headersize + uint fingerprint + 10
       \<le> uint bufsize"
    "dv = \<lparr>dv_offset = fs_offset st - nbytes,
           dv_data = load (fs_buffer st3) (uint (fs_offset st - nbytes)) (unat nbytes),
           dv_size = nbytes,
           dv_fingerprint = load (fs_buffer st3)
             (uint (fs_offset st - nbytes) + uint nbytes - uint headersize + uint fingerprint) 10,
           dv_fsize = 10\<rparr>"
    "st' = st3\<lparr>fs_offset := fs_offset st - nbytes\<rparr>"
  using assms unfolding foreach_body_def Let_def
  by (auto split: option.splits if_splits prod.splits simp: not_less)

lemma foreach_body_Dive_nbytes:
  assumes "headersize \<le> (offset :: 32 word)" "nbytes \<le> offset"
    and "uint offset - uint nbytes + uint (nbytes - headersize) \<le> uint (bufsize :: 32 word)"
  shows "headersize \<le> nbytes"
proof (rule ccontr)
  assume "\<not> headersize \<le> nbytes"
  then have lt: "uint nbytes < uint headersize" by (simp add: word_le_def)
  then have "uint (nbytes - headersize) = uint nbytes - uint headersize + 2 ^ 32"
    by (simp add: uint_sub_if')
  moreover have "uint bufsize < 2 ^ 32" using uint_lt2p[of bufsize] by simp
  moreover have "uint headersize \<le> uint offset" using assms(1) by (simp add: word_le_def)
  ultimately show False using assms(3) by linarith
qed

lemma foreach_body_Dive_offset:
  assumes "foreach_body model bufsize st = Dive dv st'"
  shows "fs_offset st' < fs_offset st \<and> fs_rc st' = DC_STATUS_SUCCESS \<and>
         uint (fs_offset st') + uint (dv_size dv) = uint (fs_offset st) \<and>
         dv_offset dv = fs_offset st'"
  using assms
proof (rule foreach_body_DiveE)
  fix st1 st2 st3 dtype nsamples headersize samplesize fingerprint nbytes
  assume sz: "dive_sizes model (dtype AND 0x03) = (headersize, samplesize, fingerprint)"
    and hs: "headersize \<le> fs_offset st"
    and nb: "nbytes \<le> fs_offset st"
    and r3: "rb_read_into bufsize st2 (uint (fs_offset st) - uint nbytes) (nbytes - headersize) = Some st3"
    and rc: "fs_rc st3 = DC_STATUS_SUCCESS"
    and dv: "dv = \<lparr>dv_offset = fs_offset st - nbytes,
           dv_data = load (fs_buffer st3) (uint (fs_offset st - nbytes)) (unat nbytes),
           dv_size = nbytes,
           dv_fingerprint = load (fs_buffer st3)
             (uint (fs_offset st - nbytes) + uint nbytes - uint headersize + uint fingerprint) 10,
           dv_fsize = 10\<rparr>"
    and st': "st' = st3\<lparr>fs_offset := fs_offset st - nbytes\<rparr>"
  from rb_read_into_Some[OF r3]
  have "uint (fs_offset st) - uint nbytes + uint (nbytes - headersize) \<le> uint bufsize" by simp
  from foreach_body_Dive_nbytes[OF hs nb this] have hn: "headersize \<le> nbytes" .
  from dive_sizes_bounds[OF sz] have "0x2E \<le> headersize" by simp
  with hn have "0x2E \<le> nbytes" by simp
  then have pos: "0 < uint nbytes" by (simp add: word_le_def)
  have sub: "uint (fs_offset st - nbytes) = uint (fs_offset st) - uint nbytes"
    using nb by (simp add: uint_sub_if' word_le_def)
  with pos have "fs_offset st - nbytes < fs_offset st" by (simp add: word_less_def)
  with st' rc dv sub show ?thesis by simp
qed

definition foreach_measure :: "foreach_state \<Rightarrow> nat" where
  "foreach_measure st = unat (fs_offset st)"

datatype 'u foreach_result = Aborted | Out_of_bounds | Returned dc_status "dive_t list" 'u

text \<open>
  The loop of \<open>foreach\<close>: the fingerprint comparison and the callback follow the body.
  \<open>dives\<close> lists the callback invocations so far, \<open>userdata\<close> is the caller's data as the
  callback left it. A null callback is \<open>None\<close>.
\<close>

function foreach_loop ::
  "mares_iconhd_device_t \<Rightarrow> 32 word \<Rightarrow> (dive_t \<Rightarrow> 'u \<Rightarrow> bool \<times> 'u) option \<Rightarrow> 'u \<Rightarrow>
     foreach_state \<Rightarrow> dive_t list \<Rightarrow> 'u foreach_result" where
  "foreach_loop device bufsize callback userdata st dives =
     (case foreach_body (dev_model device) bufsize st of
        Fault \<Rightarrow> Out_of_bounds
      | Stop st' \<Rightarrow> Returned (fs_rc st') dives userdata
      | Dive dv st' \<Rightarrow>
          if dv_fingerprint dv = dev_fingerprint device then Returned (fs_rc st') dives userdata
          else case callback of
            None \<Rightarrow> foreach_loop device bufsize callback userdata st' dives
          | Some f \<Rightarrow>
              (case f dv userdata of
                 (continue, userdata') \<Rightarrow>
                   if \<not> continue then Returned (fs_rc st') (dives @ [dv]) userdata'
                   else foreach_loop device bufsize callback userdata' st' (dives @ [dv])))"
  by pat_completeness auto
termination
proof (relation "measure (\<lambda>(device, bufsize, callback, userdata, st, dives). foreach_measure st)",
       goal_cases)
  case 1
  show ?case by simp
next
  case 2
  then show ?case
    using foreach_body_Dive_offset by (fastforce simp: foreach_measure_def word_less_nat_alt)
next
  case 3
  then show ?case
    using foreach_body_Dive_offset by (fastforce simp: foreach_measure_def word_less_nat_alt)
qed

text \<open>
  The loop over the two candidate addresses of the ring write pointer, with \<open>eop\<close> as it
  stands.
\<close>

fun foreach_eop ::
  "mares_iconhd_device_t \<Rightarrow> 32 word list \<Rightarrow> 32 word \<Rightarrow>
     (dc_status \<times> 32 word \<times> mares_iconhd_device_t) option" where
  "foreach_eop device [] eop = Some (DC_STATUS_SUCCESS, eop, device)"
| "foreach_eop device (address # config) eop =
     (case mares_iconhd_device_read device address 4 of
        None \<Rightarrow> None
      | Some (rc, pointer, d') \<Rightarrow>
          if rc \<noteq> DC_STATUS_SUCCESS then Some (rc, eop, d')
          else if array_uint32_le pointer \<noteq> 0xFFFFFFFF
            then Some (DC_STATUS_SUCCESS, array_uint32_le pointer, d')
          else foreach_eop d' config (array_uint32_le pointer))"

text \<open>
  \<open>mares_iconhd_device_foreach\<close>. The session has the type of this backend, so the
  \<open>ISINSTANCE\<close> test holds; the progress, vendor and device-info events have no effect on
  the control flow and are left out. The result lists the callback invocations.
\<close>

definition mares_iconhd_device_foreach ::
  "mares_iconhd_device_t \<Rightarrow> foreach_env \<Rightarrow> (dive_t \<Rightarrow> 'u \<Rightarrow> bool \<times> 'u) option \<Rightarrow> 'u \<Rightarrow>
     'u foreach_result" where
  "mares_iconhd_device_foreach device env callback userdata =
     (let layout = dev_layout device
      in case mares_iconhd_device_read device 0x0C 4 of
        None \<Rightarrow> Aborted
      | Some (rc, serial, d1) \<Rightarrow>
          if rc \<noteq> DC_STATUS_SUCCESS then Returned rc [] userdata
          else case foreach_eop d1 [0x2001, 0x3001] 0 of
            None \<Rightarrow> Aborted
          | Some (rc, eop, d2) \<Rightarrow>
              if rc \<noteq> DC_STATUS_SUCCESS then Returned rc [] userdata
              else if eop < rb_profile_begin layout \<or> eop \<ge> rb_profile_end layout then
                (if eop = 0xFFFFFFFF then Returned DC_STATUS_SUCCESS [] userdata
                 else Returned DC_STATUS_DATAFORMAT [] userdata)
              else case dc_rbstream_new env (rb_profile_begin layout) (rb_profile_end layout) eop of
                (rc, rbstream) \<Rightarrow>
                  if rc \<noteq> DC_STATUS_SUCCESS then Returned rc [] userdata
                  else if \<not> env_malloc env then Returned DC_STATUS_NOMEMORY [] userdata
                  else foreach_loop d2 (rb_profile_end layout - rb_profile_begin layout)
                         callback userdata
                         \<lparr>fs_rc = rc, fs_rbstream = rbstream, fs_buffer = env_fresh env,
                          fs_offset = rb_profile_end layout - rb_profile_begin layout\<rparr>
                         [])"

section \<open>Claims about the ring write pointer\<close>

lemma foreach_eop_first:
  assumes "mares_iconhd_device_read d1 0x2001 4 = Some (DC_STATUS_SUCCESS, pointer1, d2)"
    and "array_uint32_le pointer1 \<noteq> 0xFFFFFFFF"
  shows "foreach_eop d1 [0x2001, 0x3001] 0 = Some (DC_STATUS_SUCCESS, array_uint32_le pointer1, d2)"
  using assms by simp

lemma foreach_eop_second:
  assumes "mares_iconhd_device_read d1 0x2001 4 = Some (DC_STATUS_SUCCESS, pointer1, d2)"
    and "array_uint32_le pointer1 = 0xFFFFFFFF"
    and "mares_iconhd_device_read d2 0x3001 4 = Some (DC_STATUS_SUCCESS, pointer2, d3)"
  shows "foreach_eop d1 [0x2001, 0x3001] 0 = Some (DC_STATUS_SUCCESS, array_uint32_le pointer2, d3)"
  using assms by simp

definition pointer_io :: "byte list list \<Rightarrow> dc_iostream" where
  "pointer_io answers =
     \<lparr>io_transport = DC_TRANSPORT_SERIAL,
      io_rx = concat (map (\<lambda>a. [(DC_STATUS_SUCCESS, [0xAA]), (DC_STATUS_SUCCESS, a),
                                 (DC_STATUS_SUCCESS, [0xEA])]) answers),
      io_tx = [], io_ctl = [], io_log = []\<rparr>"

definition pointer_device :: "32 word \<Rightarrow> byte list list \<Rightarrow> mares_iconhd_device_t" where
  "pointer_device model answers =
     \<lparr>dev_cancel = [], dev_iostream = pointer_io answers,
      dev_layout = fst (load_layout model), dev_fingerprint = replicate 10 0,
      dev_version = replicate 140 0, dev_model = model,
      dev_packetsize = snd (load_layout model), dev_cache = replicate 20 0,
      dev_available = 0, dev_offset = 0\<rparr>"

definition requested :: "mares_iconhd_device_t \<Rightarrow> byte list list \<Rightarrow> byte list list \<Rightarrow> mares_iconhd_device_t" where
  "requested d answers commands =
     d\<lparr>dev_iostream := (pointer_io answers)\<lparr>io_log := map Sent commands\<rparr>\<rparr>"

definition blank_env :: foreach_env where
  "blank_env = \<lparr>env_memory = (\<lambda>a. 0xFF), env_rbstream_new = DC_STATUS_SUCCESS,
                env_rbstream_read = [], env_malloc = True, env_fresh = (\<lambda>k. 0)\<rparr>"



section \<open>Facts about the ring accessor and the scratch buffer\<close>

lemma rb_fetch_length: "rb_fetch mem b e a n = (bs, a') \<Longrightarrow> length bs = n"
  by (induction n arbitrary: a bs a') (auto simp: Let_def split: prod.splits)

lemma dc_rbstream_read_props:
  "dc_rbstream_read rb n = (rc, bs, rb') \<Longrightarrow>
     rb_sizes rb' = rb_sizes rb @ [n] \<and> (rc = DC_STATUS_SUCCESS \<longrightarrow> length bs = n)"
  by (auto simp: dc_rbstream_read_def Let_def rb_fetch_length split: if_splits prod.splits)

lemma length_load [simp]: "length (load buf i n) = n"
  by (simp add: load_def)

lemma load_store_inside:
  "k + n \<le> length bs \<Longrightarrow> load (store buf pos bs) (pos + int k) n = take n (drop k bs)"
  by (auto simp: load_def store_def list_eq_iff_nth_eq nat_add_distrib)

lemma load_store_outside:
  "j + int n \<le> pos \<or> pos + int (length bs) \<le> j \<Longrightarrow>
     load (store buf pos bs) j n = load buf j n"
  by (auto simp: load_def store_def)

lemma load_take_drop:
  "k + n \<le> m \<Longrightarrow> take n (drop k (load buf i m)) = load buf (i + int k) n"
  by (auto simp: load_def list_eq_iff_nth_eq add.assoc)

lemma rb_read_into_eq:
  assumes "0 \<le> pos" "pos + uint n \<le> uint bufsize"
    and "dc_rbstream_read (fs_rbstream st) (unat n) = (rc, bs, rb')"
  shows "rb_read_into bufsize st pos n =
           Some (st\<lparr>fs_rc := rc, fs_rbstream := rb',
                    fs_buffer := (if rc = DC_STATUS_SUCCESS then store (fs_buffer st) pos bs
                                  else fs_buffer st)\<rparr>)"
  using assms by (simp add: rb_read_into_def)

lemma rb_read_into_props:
  assumes "rb_read_into bufsize st pos n = Some st1"
  shows "0 \<le> pos \<and> pos + uint n \<le> uint bufsize \<and> fs_offset st1 = fs_offset st \<and>
         rb_sizes (fs_rbstream st1) = rb_sizes (fs_rbstream st) @ [unat n] \<and>
         (fs_rc st1 = DC_STATUS_SUCCESS \<longrightarrow>
            (\<exists>bs. length bs = unat n \<and> fs_buffer st1 = store (fs_buffer st) pos bs \<and>
                  dc_rbstream_read (fs_rbstream st) (unat n) =
                    (DC_STATUS_SUCCESS, bs, fs_rbstream st1)))"
proof -
  obtain rc bs rb' where r: "dc_rbstream_read (fs_rbstream st) (unat n) = (rc, bs, rb')"
    by (cases "dc_rbstream_read (fs_rbstream st) (unat n)") auto
  from assms r dc_rbstream_read_props[OF r] show ?thesis
    by (auto simp: rb_read_into_def split: if_splits)
qed

lemma foreach_body_sizes:
  assumes "dive_header model + 4 \<le> fs_offset st"
    and "foreach_body model bufsize st = Stop st' \<or> foreach_body model bufsize st = Dive dv st'"
  shows "\<exists>rest. rb_sizes (fs_rbstream st') =
                  rb_sizes (fs_rbstream st) @ unat (dive_header model) # rest"
  using assms unfolding foreach_body_def Let_def
  by (auto split: option.splits if_splits prod.splits dest!: rb_read_into_props)

lemma dive_header_uint:
  "uint (dive_header model + 4) = uint (dive_header model) + 4 \<and> 4 \<le> unat (dive_header model) \<and>
   4 \<le> uint (dive_header model) \<and> uint (dive_header model) \<le> 0x84"
  by (auto simp: dive_header_def)

lemma dive_nbytes_store:
  "pos + int (length bs) \<le> hdr \<Longrightarrow>
     dive_nbytes model (store buf pos bs) hdr headersize samplesize nsamples =
     dive_nbytes model buf hdr headersize samplesize nsamples"
proof -
  assume a: "pos + int (length bs) \<le> hdr"
  have "load (store buf pos bs) (hdr + 0x1C) 2 = load buf (hdr + 0x1C) 2"
    using a by (intro load_store_outside) simp
  moreover have "load (store buf pos bs) (hdr + 0x24) 4 = load buf (hdr + 0x24) 4"
    using a by (intro load_store_outside) simp
  ultimately show ?thesis by (simp add: dive_nbytes_def Let_def)
qed

text \<open>
  The two 16-bit fields at the start of the first read of an iteration, and the type and
  sample count they stand for in each model family.
\<close>

definition mini_fields :: "32 word \<Rightarrow> byte list \<Rightarrow> 32 word \<times> 32 word" where
  "mini_fields model bs =
     (let f0 = array_uint16_le (take 2 bs); f2 = array_uint16_le (take 2 (drop 2 bs))
      in if model = SMART \<or> model = SMARTAPNEA \<or> model = SMARTAIR then (f2, f0) else (f0, f2))"

lemma foreach_body_first:
  assumes "dive_header model + 4 \<le> fs_offset st"
    and "uint (fs_offset st) \<le> uint bufsize"
    and "dc_rbstream_read (fs_rbstream st) (unat (dive_header model)) = (rc, bs, rb')"
  shows "rb_read_into bufsize st (uint (fs_offset st) - uint (dive_header model)) (dive_header model) =
           Some (st\<lparr>fs_rc := rc, fs_rbstream := rb',
                    fs_buffer := (if rc = DC_STATUS_SUCCESS
                                  then store (fs_buffer st)
                                         (uint (fs_offset st) - uint (dive_header model)) bs
                                  else fs_buffer st)\<rparr>)"
proof -
  from assms(1) have "uint (dive_header model) + 4 \<le> uint (fs_offset st)"
    using dive_header_uint[of model] by (simp add: word_le_def)
  with assms(2) show ?thesis
    by (intro rb_read_into_eq[OF _ _ assms(3)]) simp_all
qed

lemma foreach_body_fields:
  assumes "rc = DC_STATUS_SUCCESS"
    and "dc_rbstream_read rb (unat (dive_header model)) = (rc, bs, rb')"
    and "mini_fields model bs = (dtype, nsamples)"
  shows "array_uint16_le (load (store buf pos bs)
           (pos + (if model = SMART \<or> model = SMARTAPNEA \<or> model = SMARTAIR then 2 else 0)) 2) = dtype"
    and "array_uint16_le (load (store buf pos bs)
           (pos + (if model = SMART \<or> model = SMARTAPNEA \<or> model = SMARTAIR then 0 else 2)) 2) = nsamples"
proof -
  from dc_rbstream_read_props[OF assms(2)] assms(1) dive_header_uint[of model]
  have len: "4 \<le> length bs" by simp
  have a: "load (store buf pos bs) (pos + 0) 2 = take 2 bs"
    using load_store_inside[of 0 2 bs buf pos] len by simp
  have b: "load (store buf pos bs) (pos + 2) 2 = take 2 (drop 2 bs)"
    using load_store_inside[of 2 2 bs buf pos] len by simp
  from a b assms(3) show
    "array_uint16_le (load (store buf pos bs)
           (pos + (if model = SMART \<or> model = SMARTAPNEA \<or> model = SMARTAIR then 2 else 0)) 2) = dtype"
    "array_uint16_le (load (store buf pos bs)
           (pos + (if model = SMART \<or> model = SMARTAPNEA \<or> model = SMARTAIR then 0 else 2)) 2) = nsamples"
    by (auto simp: mini_fields_def Let_def split: if_splits)
qed

lemma foreach_body_unwritten:
  assumes "dive_header model + 4 \<le> fs_offset st"
    and "uint (fs_offset st) \<le> uint bufsize"
    and "dc_rbstream_read (fs_rbstream st) (unat (dive_header model)) = (DC_STATUS_SUCCESS, bs, rb')"
    and "mini_fields model bs = (dtype, nsamples)"
    and "nsamples = 0xFFFF \<or> dtype = 0xFFFF"
  shows "foreach_body model bufsize st =
           Stop (st\<lparr>fs_rc := DC_STATUS_SUCCESS, fs_rbstream := rb',
                    fs_buffer := store (fs_buffer st)
                                   (uint (fs_offset st) - uint (dive_header model)) bs\<rparr>)"
proof -
  note r = foreach_body_first[OF assms(1,2,3)]
  note f = foreach_body_fields[OF refl assms(3,4)]
  show ?thesis
    unfolding foreach_body_def Let_def using assms(1,5) r f by (simp add: add.commute)
qed

lemma uint_sub_le: "(b :: 32 word) \<le> a \<Longrightarrow> uint (a - b) = uint a - uint b"
  by (simp add: uint_sub_if' word_le_def)

lemma int_unat: "int (unat (w :: 32 word)) = uint w"
  by simp

text \<open>
  What a reconstructed dive is made of: the first read and its two fields, the sizes of
  its model and mode, and the bytes of the buffer it lies in.
\<close>

lemma foreach_body_Dive_record:
  assumes "foreach_body model bufsize st = Dive dv st'"
  shows "\<exists>bs rb' dtype nsamples headersize samplesize fingerprint.
           dc_rbstream_read (fs_rbstream st) (unat (dive_header model)) =
             (DC_STATUS_SUCCESS, bs, rb') \<and>
           mini_fields model bs = (dtype, nsamples) \<and> nsamples \<noteq> 0xFFFF \<and> dtype \<noteq> 0xFFFF \<and>
           dive_sizes model (dtype AND 0x03) = (headersize, samplesize, fingerprint) \<and>
           dive_header model + 4 \<le> fs_offset st \<and>
           headersize \<le> dv_size dv \<and> dv_size dv \<le> fs_offset st \<and>
           uint (fs_offset st) \<le> uint bufsize \<and>
           uint (fs_offset st') = uint (fs_offset st) - uint (dv_size dv) \<and>
           dv_offset dv = fs_offset st' \<and> dv_fsize dv = 10 \<and>
           dv_size dv = dive_nbytes model (fs_buffer st') (uint (fs_offset st) - uint headersize)
                          headersize samplesize nsamples \<and>
           dv_data dv = load (fs_buffer st') (uint (fs_offset st')) (unat (dv_size dv)) \<and>
           dv_fingerprint dv =
             load (fs_buffer st') (uint (fs_offset st) - uint headersize + uint fingerprint) 10 \<and>
           load (fs_buffer st') (uint (fs_offset st) - uint (dive_header model))
             (unat (dive_header model)) = bs \<and>
           array_uint32_le (load (fs_buffer st') (uint (fs_offset st')) 4) = dv_size dv"
  using assms
proof (rule foreach_body_DiveE)
  fix st1 st2 st3 dtype nsamples headersize samplesize fingerprint nbytes
  let ?off = "uint (fs_offset st)"
  let ?h = "dive_header model"
  assume ent: "?h + 4 \<le> fs_offset st"
    and r1: "rb_read_into bufsize st (?off - uint ?h) ?h = Some st1"
    and rc1: "fs_rc st1 = DC_STATUS_SUCCESS"
    and dt: "dtype = array_uint16_le (load (fs_buffer st1)
               (?off - uint ?h + (if model = SMART \<or> model = SMARTAPNEA \<or> model = SMARTAIR then 2 else 0)) 2)"
    and ns: "nsamples = array_uint16_le (load (fs_buffer st1)
               (?off - uint ?h + (if model = SMART \<or> model = SMARTAPNEA \<or> model = SMARTAIR then 0 else 2)) 2)"
    and nz: "nsamples \<noteq> 0xFFFF" "dtype \<noteq> 0xFFFF"
    and sz: "dive_sizes model (dtype AND 0x03) = (headersize, samplesize, fingerprint)"
    and hs: "headersize \<le> fs_offset st"
    and r2: "rb_read_into bufsize st1 (?off - uint headersize) (headersize - ?h) = Some st2"
    and rc2: "fs_rc st2 = DC_STATUS_SUCCESS"
    and nb: "nbytes = dive_nbytes model (fs_buffer st2) (?off - uint headersize)
                headersize samplesize nsamples"
    and nbo: "nbytes \<le> fs_offset st"
    and r3: "rb_read_into bufsize st2 (?off - uint nbytes) (nbytes - headersize) = Some st3"
    and rc3: "fs_rc st3 = DC_STATUS_SUCCESS"
    and len: "array_uint32_le (load (fs_buffer st3) (uint (fs_offset st - nbytes)) 4) = nbytes"
    and dv: "dv = \<lparr>dv_offset = fs_offset st - nbytes,
           dv_data = load (fs_buffer st3) (uint (fs_offset st - nbytes)) (unat nbytes),
           dv_size = nbytes,
           dv_fingerprint = load (fs_buffer st3)
             (uint (fs_offset st - nbytes) + uint nbytes - uint headersize + uint fingerprint) 10,
           dv_fsize = 10\<rparr>"
    and st': "st' = st3\<lparr>fs_offset := fs_offset st - nbytes\<rparr>"
  note b = dive_sizes_bounds[OF sz]
  from rb_read_into_props[OF r1] rc1 obtain bs1 where
    p1: "0 \<le> ?off - uint ?h" "?off - uint ?h + uint ?h \<le> uint bufsize"
    and l1: "length bs1 = unat ?h"
    and b1: "fs_buffer st1 = store (fs_buffer st) (?off - uint ?h) bs1"
    and d1: "dc_rbstream_read (fs_rbstream st) (unat ?h) = (DC_STATUS_SUCCESS, bs1, fs_rbstream st1)"
    by auto
  from rb_read_into_props[OF r2] rc2 obtain bs2 where
    l2: "length bs2 = unat (headersize - ?h)"
    and b2: "fs_buffer st2 = store (fs_buffer st1) (?off - uint headersize) bs2"
    by auto
  from rb_read_into_props[OF r3] rc3 obtain bs3 where
    p3: "?off - uint nbytes + uint (nbytes - headersize) \<le> uint bufsize"
    and l3: "length bs3 = unat (nbytes - headersize)"
    and b3: "fs_buffer st3 = store (fs_buffer st2) (?off - uint nbytes) bs3"
    by auto
  from foreach_body_Dive_nbytes[OF hs nbo p3] have hn: "headersize \<le> nbytes" .
  have hh: "?h \<le> headersize" using b by simp
  have il1: "int (length bs1) = uint ?h" using l1 by simp
  have il2: "int (length bs2) = uint headersize - uint ?h"
    using l2 uint_sub_le[OF hh] by simp
  have il3: "int (length bs3) = uint nbytes - uint headersize"
    using l3 uint_sub_le[OF hn] by simp
  have off': "uint (fs_offset st - nbytes) = ?off - uint nbytes"
    using uint_sub_le[OF nbo] .
  have uh: "uint ?h \<le> uint headersize" using hh by (simp add: word_le_def)
  have un: "uint headersize \<le> uint nbytes" using hn by (simp add: word_le_def)
  obtain x y where mf: "mini_fields model bs1 = (x, y)" by (cases "mini_fields model bs1")
  from foreach_body_fields[OF refl d1 mf, of "fs_buffer st" "?off - uint ?h"] dt ns b1
  have xy: "x = dtype" "y = nsamples" by simp_all
  have keep3: "load (fs_buffer st3) j n = load (fs_buffer st2) j n" if "?off - uint headersize \<le> j" for j n
    unfolding b3 using that il3 by (intro load_store_outside) simp
  have keep2: "load (fs_buffer st2) j n = load (fs_buffer st1) j n" if "?off - uint ?h \<le> j" for j n
    unfolding b2 using that il2 by (intro load_store_outside) simp
  have mini: "load (fs_buffer st3) (?off - uint ?h) (unat ?h) = bs1"
  proof -
    have "load (fs_buffer st3) (?off - uint ?h) (unat ?h) = load (fs_buffer st1) (?off - uint ?h) (unat ?h)"
      using keep3[of "?off - uint ?h"] keep2[of "?off - uint ?h"] uh by simp
    also have "\<dots> = take (unat ?h) (drop 0 bs1)"
      unfolding b1 using load_store_inside[of 0 "unat ?h" bs1 "fs_buffer st" "?off - uint ?h"] l1
      by simp
    finally show ?thesis using l1 by simp
  qed
  have nb3: "dive_nbytes model (fs_buffer st3) (?off - uint headersize) headersize samplesize nsamples
               = nbytes"
  proof -
    have "dive_nbytes model (store (fs_buffer st2) (?off - uint nbytes) bs3)
            (?off - uint headersize) headersize samplesize nsamples =
          dive_nbytes model (fs_buffer st2) (?off - uint headersize) headersize samplesize nsamples"
      using il3 by (intro dive_nbytes_store) simp
    then show ?thesis using b3 nb by simp
  qed
  have fpi: "uint (fs_offset st - nbytes) + uint nbytes - uint headersize + uint fingerprint
               = ?off - uint headersize + uint fingerprint"
    using off' by simp
  show ?thesis
    apply (rule exI[of _ bs1], rule exI[of _ "fs_rbstream st1"], rule exI[of _ dtype],
           rule exI[of _ nsamples], rule exI[of _ headersize], rule exI[of _ samplesize],
           rule exI[of _ fingerprint])
    using d1 mf xy nz sz ent hn nbo p1 off' nb3 mini len fpi
    by (simp add: dv st')
qed

section \<open>Claims about one iteration of the enumerator\<close>

lemma dive_header_whole:
  "model \<noteq> SMART \<Longrightarrow> model \<noteq> SMARTAIR \<Longrightarrow> model \<noteq> SMARTAPNEA \<Longrightarrow>
     dive_header model = fst (dive_sizes model mode)"
  by (simp add: dive_header_def dive_sizes_def)

text \<open>
  C5, as the code has it. In an iteration of the loop (\<open>offset \<ge> header + 4\<close>) the first
  read asks for \<open>header\<close> bytes ending at the offset: 4 bytes for SMART and SMARTAIR, 6 for
  SMARTAPNEA, and for every other model the whole dive header (0x5C, 0x80 or 0x84 bytes).
  Its first two 16-bit little-endian fields are the sample count (offset 0) and the type
  (offset 2) for SMART, SMARTAPNEA and SMARTAIR, the type (offset 0) and the sample count
  (offset 2) for all other models: the sizes of a reconstructed dive are those of that type
  and count. If the read succeeds and either field is 0xFFFF the enumeration stops with
  SUCCESS and the dives delivered so far.
\<close>

theorem foreach_first_read:
  assumes "dive_header (dev_model device) + 4 \<le> fs_offset st"
    and "uint (fs_offset st) \<le> uint bufsize"
    and "dc_rbstream_read (fs_rbstream st) (unat (dive_header (dev_model device))) = (rc, bs, rb')"
    and "smart = (dev_model device = SMART \<or> dev_model device = SMARTAPNEA \<or>
                  dev_model device = SMARTAIR)"
    and "dtype = array_uint16_le (take 2 (drop (if smart then 2 else 0) bs))"
    and "nsamples = array_uint16_le (take 2 (drop (if smart then 0 else 2) bs))"
  shows "dive_header (dev_model device) =
           (if dev_model device = SMART \<or> dev_model device = SMARTAIR then 4
            else if dev_model device = SMARTAPNEA then 6
            else fst (dive_sizes (dev_model device) (dtype AND 0x03))) \<and>
         (\<forall>st' dv. foreach_body (dev_model device) bufsize st = Stop st' \<or>
                   foreach_body (dev_model device) bufsize st = Dive dv st' \<longrightarrow>
            (\<exists>rest. rb_sizes (fs_rbstream st') =
                      rb_sizes (fs_rbstream st) @ unat (dive_header (dev_model device)) # rest)) \<and>
         (\<forall>dv st'. foreach_body (dev_model device) bufsize st = Dive dv st' \<longrightarrow>
            (\<exists>headersize samplesize fingerprint.
               dive_sizes (dev_model device) (dtype AND 0x03) = (headersize, samplesize, fingerprint) \<and>
               dv_size dv = dive_nbytes (dev_model device) (fs_buffer st')
                              (uint (fs_offset st) - uint headersize) headersize samplesize nsamples)) \<and>
         (rc = DC_STATUS_SUCCESS \<and> (nsamples = 0xFFFF \<or> dtype = 0xFFFF) \<longrightarrow>
            foreach_loop device bufsize callback userdata st dives =
              Returned DC_STATUS_SUCCESS dives userdata)"
proof -
  let ?m = "dev_model device"
  have mf: "mini_fields ?m bs = (dtype, nsamples)"
    using assms(4,5,6) by (auto simp: mini_fields_def Let_def)
  have a: "dive_header ?m =
           (if ?m = SMART \<or> ?m = SMARTAIR then 4 else if ?m = SMARTAPNEA then 6
            else fst (dive_sizes ?m (dtype AND 0x03)))"
    using dive_header_whole[of ?m "dtype AND 0x03"] by (auto simp: dive_header_def)
  have b: "\<exists>rest. rb_sizes (fs_rbstream st') = rb_sizes (fs_rbstream st) @ unat (dive_header ?m) # rest"
    if "foreach_body ?m bufsize st = Stop st' \<or> foreach_body ?m bufsize st = Dive dv st'" for st' dv
    using foreach_body_sizes[OF assms(1) that] .
  have c: "\<exists>headersize samplesize fingerprint.
               dive_sizes ?m (dtype AND 0x03) = (headersize, samplesize, fingerprint) \<and>
               dv_size dv = dive_nbytes ?m (fs_buffer st')
                              (uint (fs_offset st) - uint headersize) headersize samplesize nsamples"
    if "foreach_body ?m bufsize st = Dive dv st'" for dv st'
    using foreach_body_Dive_record[OF that] assms(3) mf by auto
  have d: "foreach_loop device bufsize callback userdata st dives =
              Returned DC_STATUS_SUCCESS dives userdata"
    if "rc = DC_STATUS_SUCCESS" "nsamples = 0xFFFF \<or> dtype = 0xFFFF"
  proof -
    from assms(3) that(1) have r: "dc_rbstream_read (fs_rbstream st) (unat (dive_header ?m)) =
        (DC_STATUS_SUCCESS, bs, rb')" by simp
    from foreach_body_unwritten[OF assms(1,2) r mf that(2)] show ?thesis
      by (simp add: foreach_loop.simps[of device bufsize callback userdata st dives])
  qed
  from a b c d show ?thesis by blast
qed

definition walk_start :: "foreach_env \<Rightarrow> mares_iconhd_layout_t \<Rightarrow> 32 word \<Rightarrow> foreach_state" where
  "walk_start env layout eop =
     \<lparr>fs_rc = DC_STATUS_SUCCESS,
      fs_rbstream = snd (dc_rbstream_new env (rb_profile_begin layout) (rb_profile_end layout) eop),
      fs_buffer = env_fresh env,
      fs_offset = rb_profile_end layout - rb_profile_begin layout\<rparr>"

definition stop_sizes :: "step \<Rightarrow> nat list" where
  "stop_sizes r = (case r of Stop st' \<Rightarrow> rb_sizes (fs_rbstream st') | _ \<Rightarrow> [])"

theorem foreach_first_read_counterexample:
  "stop_sizes (foreach_body ICONHD 0xF6000 (walk_start blank_env mares_iconhd_layout 0xA000)) = [0x5C] \<and>
   \<not> (4 \<le> hd (stop_sizes (foreach_body ICONHD 0xF6000
                    (walk_start blank_env mares_iconhd_layout 0xA000))) \<and>
      hd (stop_sizes (foreach_body ICONHD 0xF6000
                    (walk_start blank_env mares_iconhd_layout 0xA000))) \<le> 6)"
proof -
  have "stop_sizes (foreach_body ICONHD 0xF6000 (walk_start blank_env mares_iconhd_layout 0xA000)) = [0x5C]"
    by code_simp
  then show ?thesis by simp
qed

theorem foreach_first_read_witness:
  "foreach_loop (pointer_device SMART []) 0x36000 None ()
     (walk_start blank_env mares_nemowide2_layout 0xB000) [] = Returned DC_STATUS_SUCCESS [] ()"
proof -
  let ?d = "pointer_device SMART []"
  let ?st = "walk_start blank_env mares_nemowide2_layout 0xB000"
  let ?r = "dc_rbstream_read (fs_rbstream ?st) (unat (dive_header (dev_model ?d)))"
  have h1: "dive_header (dev_model ?d) + 4 \<le> fs_offset ?st" by code_simp
  have h2: "uint (fs_offset ?st) \<le> uint (0x36000 :: 32 word)" by code_simp
  have h3: "?r = (fst ?r, fst (snd ?r), snd (snd ?r))" by simp
  have m: "(dev_model ?d = SMART \<or> dev_model ?d = SMARTAPNEA \<or> dev_model ?d = SMARTAIR) = True"
    by code_simp
  have rc: "fst ?r = DC_STATUS_SUCCESS" by code_simp
  have t: "array_uint16_le (take 2 (drop 2 (fst (snd ?r)))) = 0xFFFF" by code_simp
  from foreach_first_read[OF h1 h2 h3 refl refl refl, of None "()" "[]"] rc t m
  show ?thesis by simp
qed

text \<open>
  C4. In an iteration whose three reads succeeded (\<open>st1\<close>, \<open>st2\<close>, \<open>st3\<close> are the states
  they leave, \<open>nbytes\<close> the computed length of the record), the length stored at the new
  offset \<open>offset - nbytes\<close> is read again as a 32-bit little-endian field. If it differs
  from \<open>nbytes\<close>, \<open>foreach\<close> returns SUCCESS with exactly the dives delivered before,
  and the callback is not called for this record; and every dive the enumerator does
  reconstruct starts with its own computed length.
\<close>

theorem foreach_length_check:
  assumes "dive_header (dev_model device) + 4 \<le> fs_offset st"
    and "rb_read_into bufsize st (uint (fs_offset st) - uint (dive_header (dev_model device)))
           (dive_header (dev_model device)) = Some st1"
    and "fs_rc st1 = DC_STATUS_SUCCESS"
    and "smart = (dev_model device = SMART \<or> dev_model device = SMARTAPNEA \<or>
                  dev_model device = SMARTAIR)"
    and "dtype = array_uint16_le (load (fs_buffer st1)
                   (uint (fs_offset st) - uint (dive_header (dev_model device)) +
                    (if smart then 2 else 0)) 2)"
    and "nsamples = array_uint16_le (load (fs_buffer st1)
                   (uint (fs_offset st) - uint (dive_header (dev_model device)) +
                    (if smart then 0 else 2)) 2)"
    and "nsamples \<noteq> 0xFFFF" and "dtype \<noteq> 0xFFFF"
    and "dive_sizes (dev_model device) (dtype AND 0x03) = (headersize, samplesize, fingerprint)"
    and "headersize \<le> fs_offset st"
    and "rb_read_into bufsize st1 (uint (fs_offset st) - uint headersize)
           (headersize - dive_header (dev_model device)) = Some st2"
    and "fs_rc st2 = DC_STATUS_SUCCESS"
    and "nbytes = dive_nbytes (dev_model device) (fs_buffer st2)
                    (uint (fs_offset st) - uint headersize) headersize samplesize nsamples"
    and "nbytes \<le> fs_offset st"
    and "rb_read_into bufsize st2 (uint (fs_offset st) - uint nbytes) (nbytes - headersize) = Some st3"
    and "fs_rc st3 = DC_STATUS_SUCCESS"
    and "stored = array_uint32_le (load (fs_buffer st3) (uint (fs_offset st - nbytes)) 4)"
  shows "(stored \<noteq> nbytes \<longrightarrow>
            foreach_loop device bufsize callback userdata st dives =
              Returned DC_STATUS_SUCCESS dives userdata) \<and>
         (\<forall>dv st'. foreach_body (dev_model device) bufsize st = Dive dv st' \<longrightarrow>
            stored = nbytes \<and> dv_size dv = nbytes \<and>
            array_uint32_le (take 4 (dv_data dv)) = dv_size dv)"
proof -
  let ?m = "dev_model device"
  note b = dive_sizes_bounds[OF assms(9)]
  from rb_read_into_props[OF assms(2)]
  have ob: "uint (fs_offset st) \<le> uint bufsize" by simp
  from rb_read_into_props[OF assms(15)]
  have p3: "uint (fs_offset st) - uint nbytes + uint (nbytes - headersize) \<le> uint bufsize" by simp
  from foreach_body_Dive_nbytes[OF assms(10,14) p3] have hn: "headersize \<le> nbytes" .
  have off': "uint (fs_offset st - nbytes) = uint (fs_offset st) - uint nbytes"
    using uint_sub_le[OF assms(14)] .
  have "0x2E \<le> nbytes" using b hn order_trans by blast
  then have n4: "0x2E \<le> uint nbytes" by (simp add: word_le_def)
  have inb: "\<not> uint bufsize < uint (fs_offset st - nbytes) + 4" using off' n4 ob by simp
  have body: "stored \<noteq> nbytes \<Longrightarrow> foreach_body ?m bufsize st = Stop st3"
    unfolding foreach_body_def Let_def
    using assms(1-3) assms(5-17)[unfolded assms(4)] inb by (simp add: not_less)
  have stop: "foreach_loop device bufsize callback userdata st dives =
              Returned DC_STATUS_SUCCESS dives userdata" if "stored \<noteq> nbytes"
    using body[OF that] assms(16)
    by (simp add: foreach_loop.simps[of device bufsize callback userdata st dives])
  have dive: "stored = nbytes \<and> dv_size dv = nbytes \<and> array_uint32_le (take 4 (dv_data dv)) = dv_size dv"
    if d: "foreach_body ?m bufsize st = Dive dv st'" for dv st'
  proof -
    from foreach_body_Dive_record[OF d] obtain hs where
      l: "array_uint32_le (load (fs_buffer st') (uint (fs_offset st')) 4) = dv_size dv"
      and dd: "dv_data dv = load (fs_buffer st') (uint (fs_offset st')) (unat (dv_size dv))"
      and h: "(0x2E :: 32 word) \<le> hs" "hs \<le> dv_size dv"
      by (auto dest: dive_sizes_bounds)
    from h have "(0x2E :: 32 word) \<le> dv_size dv" by (rule order_trans)
    then have "4 \<le> unat (dv_size dv)" by (simp add: word_le_nat_alt)
    then have "take 4 (dv_data dv) = load (fs_buffer st') (uint (fs_offset st')) 4"
      unfolding dd using load_take_drop[of 0 4 "unat (dv_size dv)" "fs_buffer st'" "uint (fs_offset st')"]
      by simp
    with l have t: "array_uint32_le (take 4 (dv_data dv)) = dv_size dv" by simp
    have "stored = nbytes \<and> dv_size dv = nbytes"
    proof (cases "stored = nbytes")
      case False
      from body[OF this] d show ?thesis by simp
    next
      case True
      from d have "dv_size dv = nbytes"
        unfolding foreach_body_def Let_def
        using assms(1-3) assms(5-17)[unfolded assms(4)] inb True
        by (auto simp: not_less split: if_splits)
      with True show ?thesis by simp
    qed
    with t show ?thesis by simp
  qed
  from stop dive show ?thesis by blast
qed

text \<open>A device memory that holds \<open>bytes\<close> from address \<open>base\<close> on and is erased elsewhere.\<close>

definition memory_of :: "32 word \<Rightarrow> byte list \<Rightarrow> 32 word \<Rightarrow> byte" where
  "memory_of base bytes =
     (\<lambda>a. if base \<le> a \<and> a - base < of_nat (length bytes) then bytes ! unat (a - base) else 0xFF)"

definition ring_env :: "32 word \<Rightarrow> byte list \<Rightarrow> foreach_env" where
  "ring_env base bytes =
     \<lparr>env_memory = memory_of base bytes, env_rbstream_new = DC_STATUS_SUCCESS,
      env_rbstream_read = [], env_malloc = True, env_fresh = (\<lambda>k. 0)\<rparr>"

text \<open>
  A SMART freedive record of one sample: length, sample, 0x2E-byte header with the
  fingerprint at 0x20 and (count, type) in its last four bytes.
\<close>

definition freedive_record :: "byte \<Rightarrow> byte list" where
  "freedive_record stored =
     [stored, 0, 0, 0] @ [1, 2, 3, 4, 5, 6] @ replicate 32 0 @
     [1, 2, 3, 4, 5, 6, 7, 8, 9, 10] @ [1, 0, 3, 0]"

definition count_dives :: "dive_t \<Rightarrow> int \<Rightarrow> bool \<times> int" where
  "count_dives dv n = (True, n + 1)"

definition is_read :: "foreach_state option \<Rightarrow> bool" where
  "is_read r = (case r of None \<Rightarrow> False | Some st \<Rightarrow> True)"

lemma is_read_the: "is_read r \<Longrightarrow> r = Some (the r)"
  by (cases r) (simp_all add: is_read_def)

theorem foreach_length_check_witness:
  "foreach_loop (pointer_device SMART []) 0x36000 (Some count_dives) 0
     (walk_start (ring_env (0xB000 - 0x38) (freedive_record 0x39)) mares_nemowide2_layout 0xB000) []
   = Returned DC_STATUS_SUCCESS [] 0"
proof -
  let ?d = "pointer_device SMART []"
  let ?B = "0x36000 :: 32 word"
  let ?st = "walk_start (ring_env (0xB000 - 0x38) (freedive_record 0x39)) mares_nemowide2_layout 0xB000"
  let ?h = "dive_header (dev_model ?d)"
  let ?r1 = "rb_read_into ?B ?st (uint (fs_offset ?st) - uint ?h) ?h"
  let ?t = "array_uint16_le (load (fs_buffer (the ?r1)) (uint (fs_offset ?st) - uint ?h + 2) 2)"
  let ?n = "array_uint16_le (load (fs_buffer (the ?r1)) (uint (fs_offset ?st) - uint ?h + 0) 2)"
  let ?r2 = "rb_read_into ?B (the ?r1) (uint (fs_offset ?st) - uint (0x2E :: 32 word)) (0x2E - ?h)"
  let ?nb = "dive_nbytes (dev_model ?d) (fs_buffer (the ?r2))
               (uint (fs_offset ?st) - uint (0x2E :: 32 word)) 0x2E 6 ?n"
  let ?r3 = "rb_read_into ?B (the ?r2) (uint (fs_offset ?st) - uint ?nb) (?nb - 0x2E)"
  let ?s = "array_uint32_le (load (fs_buffer (the ?r3)) (uint (fs_offset ?st - ?nb)) 4)"
  have h1: "?h + 4 \<le> fs_offset ?st" by code_simp
  have "is_read ?r1" by code_simp
  then have h2: "?r1 = Some (the ?r1)" by (rule is_read_the)
  have h3: "fs_rc (the ?r1) = DC_STATUS_SUCCESS" by code_simp
  have h4: "True = (dev_model ?d = SMART \<or> dev_model ?d = SMARTAPNEA \<or> dev_model ?d = SMARTAIR)"
    by code_simp
  have h5: "?t = array_uint16_le (load (fs_buffer (the ?r1))
              (uint (fs_offset ?st) - uint ?h + (if True then 2 else 0)) 2)" by simp
  have h6: "?n = array_uint16_le (load (fs_buffer (the ?r1))
              (uint (fs_offset ?st) - uint ?h + (if True then 0 else 2)) 2)" by simp
  have h7: "?n \<noteq> 0xFFFF" by code_simp
  have h8: "?t \<noteq> 0xFFFF" by code_simp
  have h9: "dive_sizes (dev_model ?d) (?t AND 0x03) = (0x2E, 6, 0x20)" by code_simp
  have h10: "(0x2E :: 32 word) \<le> fs_offset ?st" by code_simp
  have "is_read ?r2" by code_simp
  then have h11: "?r2 = Some (the ?r2)" by (rule is_read_the)
  have h12: "fs_rc (the ?r2) = DC_STATUS_SUCCESS" by code_simp
  have h14: "?nb \<le> fs_offset ?st" by code_simp
  have "is_read ?r3" by code_simp
  then have h15: "?r3 = Some (the ?r3)" by (rule is_read_the)
  have h16: "fs_rc (the ?r3) = DC_STATUS_SUCCESS" by code_simp
  have ne: "?s \<noteq> ?nb" by code_simp
  from foreach_length_check[OF h1 h2 h3 h4 h5 h6 h7 h8 h9 h10 h11 h12 refl h14 h15 h16 refl,
         of "Some count_dives" 0 "[]"] ne
  show ?thesis by blast
qed

section \<open>Claim about the computed record length\<close>

lemma drop_load: "k \<le> m \<Longrightarrow> drop k (load buf i m) = load buf (i + int k) (m - k)"
  by (auto simp: load_def list_eq_iff_nth_eq add.assoc)

text \<open>
  The length formula in the words of the spec, computed from the bytes of a record alone:
  the type and sample count in the last \<open>header\<close> bytes, the header in the last
  \<open>headersize\<close> bytes, \<open>settings\<close> at its offset 0x1C and \<open>divetime\<close> at 0x24. The
  arithmetic is that of \<open>unsigned int\<close>.
\<close>

definition record_length :: "32 word \<Rightarrow> byte list \<Rightarrow> 32 word" where
  "record_length model data =
     (let mini = drop (length data - unat (dive_header model)) data;
          smart = (model = SMART \<or> model = SMARTAPNEA \<or> model = SMARTAIR);
          dtype = array_uint16_le (take 2 (drop (if smart then 2 else 0) mini));
          nsamples = array_uint16_le (take 2 (drop (if smart then 0 else 2) mini))
      in case dive_sizes model (dtype AND 0x03) of
           (headersize, samplesize, fingerprint) \<Rightarrow>
             (let header = drop (length data - unat headersize) data;
                  divetime = array_uint32_le (take 4 (drop 0x24 header));
                  settings = array_uint16_le (take 2 (drop 0x1C header));
                  samplerate = push_bit (unat (drop_bit 9 settings AND 0x03)) (1 :: 32 word)
              in 4 + headersize + nsamples * samplesize +
                 (if model = ICONHDNET \<or> model = QUADAIR \<or> model = SMARTAIR
                    then (nsamples div 4) * 8
                  else if model = SMARTAPNEA then divetime * samplerate * 2
                  else 0)))"

lemma foreach_body_Dive_length:
  assumes "foreach_body model bufsize st = Dive dv st'"
  shows "dv_size dv = record_length model (dv_data dv) \<and> length (dv_data dv) = unat (dv_size dv)"
proof -
  from foreach_body_Dive_record[OF assms] obtain bs rb' dtype nsamples headersize samplesize fingerprint
    where rd: "dc_rbstream_read (fs_rbstream st) (unat (dive_header model)) = (DC_STATUS_SUCCESS, bs, rb')"
      and mf: "mini_fields model bs = (dtype, nsamples)"
      and sz: "dive_sizes model (dtype AND 0x03) = (headersize, samplesize, fingerprint)"
      and hn: "headersize \<le> dv_size dv" and no: "dv_size dv \<le> fs_offset st"
      and off: "uint (fs_offset st') = uint (fs_offset st) - uint (dv_size dv)"
      and nb: "dv_size dv = dive_nbytes model (fs_buffer st') (uint (fs_offset st) - uint headersize)
                          headersize samplesize nsamples"
      and dd: "dv_data dv = load (fs_buffer st') (uint (fs_offset st')) (unat (dv_size dv))"
      and mini: "load (fs_buffer st') (uint (fs_offset st) - uint (dive_header model))
                   (unat (dive_header model)) = bs"
    by blast
  let ?buf = "fs_buffer st'"
  let ?n = "unat (dv_size dv)"
  let ?h = "dive_header model"
  let ?hdr = "uint (fs_offset st) - uint headersize"
  note b = dive_sizes_bounds[OF sz]
  have len: "length (dv_data dv) = ?n" by (simp add: dd)
  have hh: "unat ?h \<le> unat headersize" using b by (simp add: word_le_nat_alt)
  have hn': "unat headersize \<le> ?n" using hn by (simp add: word_le_nat_alt)
  have h46: "46 \<le> unat headersize" using b by (simp add: word_le_nat_alt)
  have i1: "int (?n - unat ?h) = uint (dv_size dv) - uint ?h"
    using hh hn' by (simp add: of_nat_diff)
  have i2: "int (?n - unat headersize) = uint (dv_size dv) - uint headersize"
    using hn' by (simp add: of_nat_diff)
  have m1: "drop (length (dv_data dv) - unat ?h) (dv_data dv) = bs"
  proof -
    have "drop (?n - unat ?h) (load ?buf (uint (fs_offset st')) ?n) =
          load ?buf (uint (fs_offset st') + int (?n - unat ?h)) (?n - (?n - unat ?h))"
      by (rule drop_load) simp
    also have "uint (fs_offset st') + int (?n - unat ?h) = uint (fs_offset st) - uint ?h"
      using off i1 by simp
    also have "?n - (?n - unat ?h) = unat ?h" using hh hn' by simp
    finally show ?thesis using mini by (simp add: dd)
  qed
  have m2: "drop (length (dv_data dv) - unat headersize) (dv_data dv) = load ?buf ?hdr (unat headersize)"
  proof -
    have "drop (?n - unat headersize) (load ?buf (uint (fs_offset st')) ?n) =
          load ?buf (uint (fs_offset st') + int (?n - unat headersize)) (?n - (?n - unat headersize))"
      by (rule drop_load) simp
    also have "uint (fs_offset st') + int (?n - unat headersize) = ?hdr"
      using off i2 by simp
    also have "?n - (?n - unat headersize) = unat headersize" using hn' by simp
    finally show ?thesis by (simp add: dd)
  qed
  have dt: "take 4 (drop 0x24 (load ?buf ?hdr (unat headersize))) = load ?buf (?hdr + 0x24) 4"
    using load_take_drop[of "0x24" 4 "unat headersize" ?buf ?hdr] h46 by simp
  have se: "take 2 (drop 0x1C (load ?buf ?hdr (unat headersize))) = load ?buf (?hdr + 0x1C) 2"
    using load_take_drop[of "0x1C" 2 "unat headersize" ?buf ?hdr] h46 by simp
  have dte: "array_uint16_le (take 2 (drop (if model = SMART \<or> model = SMARTAPNEA \<or> model = SMARTAIR
                                            then 2 else 0) bs)) = dtype"
    and nse: "array_uint16_le (take 2 (drop (if model = SMART \<or> model = SMARTAPNEA \<or> model = SMARTAIR
                                            then 0 else 2) bs)) = nsamples"
    using mf by (auto simp: mini_fields_def Let_def split: if_splits)
  have "record_length model (dv_data dv) =
          dive_nbytes model ?buf ?hdr headersize samplesize nsamples"
    unfolding record_length_def dive_nbytes_def Let_def m1 dte nse sz prod.case m2 dt se
    by simp
  with nb len show ?thesis by simp
qed

text \<open>
  C2. Every record the enumerator reconstructs has, as its computed total length, the
  value of the formula on its own bytes: \<open>4 + headersize + nsamples * samplesize\<close>, plus
  \<open>(nsamples / 4) * 8\<close> for ICONHDNET, QUADAIR and SMARTAIR, plus
  \<open>divetime * samplerate * 2\<close> for SMARTAPNEA with \<open>samplerate = 1 << ((settings >> 9) & 3)\<close>,
  in 32-bit unsigned arithmetic; the record handed out has exactly that many bytes.
\<close>

theorem foreach_record_length:
  assumes "foreach_body model bufsize st = Dive dv st'"
  shows "dv_size dv = record_length model (dv_data dv) \<and>
         length (dv_data dv) = unat (dv_size dv) \<and>
         (\<exists>nsamples headersize samplesize (fingerprint :: 32 word) divetime settings.
            dv_size dv =
              4 + headersize + nsamples * samplesize +
              (if model = ICONHDNET \<or> model = QUADAIR \<or> model = SMARTAIR then (nsamples div 4) * 8
               else if model = SMARTAPNEA
                 then divetime * push_bit (unat (drop_bit 9 settings AND 0x03)) 1 * 2
               else 0) \<and>
            divetime = array_uint32_le
                         (take 4 (drop 0x24 (drop (length (dv_data dv) - unat headersize) (dv_data dv)))) \<and>
            settings = array_uint16_le
                         (take 2 (drop 0x1C (drop (length (dv_data dv) - unat headersize) (dv_data dv)))) \<and>
            (headersize, samplesize, fingerprint) \<in>
              {(0x5C, 8, 6), (0x80, 12, 6), (0x84, 12, 6), (0x2E, 6, 0x20), (0x5C, 8, 2),
               (0x50, 14, 0x40), (0x84, 12, 2)})"
proof -
  note l = foreach_body_Dive_length[OF assms]
  let ?mini = "drop (length (dv_data dv) - unat (dive_header model)) (dv_data dv)"
  let ?smart = "(model = SMART \<or> model = SMARTAPNEA \<or> model = SMARTAIR)"
  let ?dtype = "array_uint16_le (take 2 (drop (if ?smart then 2 else 0) ?mini))"
  let ?ns = "array_uint16_le (take 2 (drop (if ?smart then 0 else 2) ?mini))"
  obtain hs ss fpo where sz: "dive_sizes model (?dtype AND 0x03) = (hs, ss, fpo)"
    by (cases "dive_sizes model (?dtype AND 0x03)")
  have tab: "(hs, ss, fpo) \<in>
              {(0x5C, 8, 6), (0x80, 12, 6), (0x84, 12, 6), (0x2E, 6, 0x20), (0x5C, 8, 2),
               (0x50, 14, 0x40), (0x84, 12, 2)}"
    using sz by (auto simp: dive_sizes_def split: if_splits)
  have rl: "record_length model (dv_data dv) =
          4 + hs + ?ns * ss +
              (if model = ICONHDNET \<or> model = QUADAIR \<or> model = SMARTAIR then (?ns div 4) * 8
               else if model = SMARTAPNEA
                 then array_uint32_le (take 4 (drop 0x24 (drop (length (dv_data dv) - unat hs) (dv_data dv))))
                      * push_bit (unat (drop_bit 9
                          (array_uint16_le (take 2 (drop 0x1C (drop (length (dv_data dv) - unat hs) (dv_data dv)))))
                          AND 0x03)) 1 * 2
               else 0)"
    unfolding record_length_def Let_def sz prod.case by simp
  have eq: "dv_size dv =
          4 + hs + ?ns * ss +
              (if model = ICONHDNET \<or> model = QUADAIR \<or> model = SMARTAIR then (?ns div 4) * 8
               else if model = SMARTAPNEA
                 then array_uint32_le (take 4 (drop 0x24 (drop (length (dv_data dv) - unat hs) (dv_data dv))))
                      * push_bit (unat (drop_bit 9
                          (array_uint16_le (take 2 (drop 0x1C (drop (length (dv_data dv) - unat hs) (dv_data dv)))))
                          AND 0x03)) 1 * 2
               else 0)"
    using conjunct1[OF l] rl by (rule trans)
  have ex: "\<exists>nsamples headersize samplesize (fingerprint :: 32 word) divetime settings.
            dv_size dv =
              4 + headersize + nsamples * samplesize +
              (if model = ICONHDNET \<or> model = QUADAIR \<or> model = SMARTAIR then (nsamples div 4) * 8
               else if model = SMARTAPNEA
                 then divetime * push_bit (unat (drop_bit 9 settings AND 0x03)) 1 * 2
               else 0) \<and>
            divetime = array_uint32_le
                         (take 4 (drop 0x24 (drop (length (dv_data dv) - unat headersize) (dv_data dv)))) \<and>
            settings = array_uint16_le
                         (take 2 (drop 0x1C (drop (length (dv_data dv) - unat headersize) (dv_data dv)))) \<and>
            (headersize, samplesize, fingerprint) \<in>
              {(0x5C, 8, 6), (0x80, 12, 6), (0x84, 12, 6), (0x2E, 6, 0x20), (0x5C, 8, 2),
               (0x50, 14, 0x40), (0x84, 12, 2)}"
    apply (rule exI[of _ ?ns], rule exI[of _ hs], rule exI[of _ ss], rule exI[of _ fpo])
    apply (rule exI[of _ "array_uint32_le
             (take 4 (drop 0x24 (drop (length (dv_data dv) - unat hs) (dv_data dv))))"])
    apply (rule exI[of _ "array_uint16_le
             (take 2 (drop 0x1C (drop (length (dv_data dv) - unat hs) (dv_data dv))))"])
    apply (rule conjI[OF eq conjI[OF refl conjI[OF refl tab]]])
    done
  from l have A: "dv_size dv = record_length model (dv_data dv)"
    and B: "length (dv_data dv) = unat (dv_size dv)" by simp_all
  show ?thesis by (rule conjI[OF A conjI[OF B ex]])
qed


definition step_dive :: "step \<Rightarrow> dive_t option" where
  "step_dive r = (case r of Dive dv st \<Rightarrow> Some dv | _ \<Rightarrow> None)"

lemma step_dive_Some: "step_dive r = Some dv \<Longrightarrow> \<exists>st'. r = Dive dv st'"
  by (cases r) (simp_all add: step_dive_def)

theorem foreach_record_length_witness:
  "step_dive (foreach_body SMART 0x36000
     (walk_start (ring_env (0xB000 - 0x38) (freedive_record 0x38)) mares_nemowide2_layout 0xB000)) =
     Some \<lparr>dv_offset = 0x36000 - 0x38, dv_data = freedive_record 0x38, dv_size = 0x38,
           dv_fingerprint = [1, 2, 3, 4, 5, 6, 7, 8, 9, 10], dv_fsize = 10\<rparr> \<and>
   record_length SMART (freedive_record 0x38) = 0x38 \<and>
   length (freedive_record 0x38) = unat (0x38 :: 32 word)"
proof -
  let ?dv = "\<lparr>dv_offset = 0x36000 - 0x38, dv_data = freedive_record 0x38, dv_size = 0x38,
           dv_fingerprint = [1, 2, 3, 4, 5, 6, 7, 8, 9, 10], dv_fsize = 10\<rparr>"
  have e: "step_dive (foreach_body SMART 0x36000
     (walk_start (ring_env (0xB000 - 0x38) (freedive_record 0x38)) mares_nemowide2_layout 0xB000)) =
     Some ?dv"
    by code_simp
  then obtain st' where "foreach_body SMART 0x36000
     (walk_start (ring_env (0xB000 - 0x38) (freedive_record 0x38)) mares_nemowide2_layout 0xB000) =
     Dive ?dv st'"
    by (blast dest: step_dive_Some)
  from foreach_record_length[OF this] e show ?thesis by simp
qed

section \<open>Claim about the fingerprint boundary\<close>

text \<open>
  The walk in the words of the spec, to compare the loop of \<open>foreach\<close> with: the dives the
  enumerator reconstructs one after the other when neither the fingerprint nor the callback
  stops it (\<open>ring_dives\<close>, newest first), how that walk ends (\<open>ring_end\<close>), and the
  delivery of a list of dives to the callback until it asks to stop (\<open>deliver\<close>: the dives
  it was called with, the caller's data, and whether it asked to stop).
\<close>

function ring_dives :: "32 word \<Rightarrow> 32 word \<Rightarrow> foreach_state \<Rightarrow> dive_t list" where
  "ring_dives model bufsize st =
     (case foreach_body model bufsize st of
        Fault \<Rightarrow> []
      | Stop st' \<Rightarrow> []
      | Dive dv st' \<Rightarrow> dv # ring_dives model bufsize st')"
  by pat_completeness auto
termination
proof (relation "measure (\<lambda>(model, bufsize, st). foreach_measure st)", goal_cases)
  case 1
  show ?case by simp
next
  case 2
  then show ?case
    using foreach_body_Dive_offset by (fastforce simp: foreach_measure_def word_less_nat_alt)
qed

function ring_end :: "32 word \<Rightarrow> 32 word \<Rightarrow> foreach_state \<Rightarrow> step" where
  "ring_end model bufsize st =
     (case foreach_body model bufsize st of
        Fault \<Rightarrow> Fault
      | Stop st' \<Rightarrow> Stop st'
      | Dive dv st' \<Rightarrow> ring_end model bufsize st')"
  by pat_completeness auto
termination
proof (relation "measure (\<lambda>(model, bufsize, st). foreach_measure st)", goal_cases)
  case 1
  show ?case by simp
next
  case 2
  then show ?case
    using foreach_body_Dive_offset by (fastforce simp: foreach_measure_def word_less_nat_alt)
qed

fun deliver ::
  "(dive_t \<Rightarrow> 'u \<Rightarrow> bool \<times> 'u) option \<Rightarrow> 'u \<Rightarrow> dive_t list \<Rightarrow> dive_t list \<times> 'u \<times> bool" where
  "deliver callback userdata [] = ([], userdata, False)"
| "deliver callback userdata (dv # dvs) =
     (case callback of
        None \<Rightarrow> deliver callback userdata dvs
      | Some f \<Rightarrow>
          (case f dv userdata of
             (continue, userdata') \<Rightarrow>
               if \<not> continue then ([dv], userdata', True)
               else case deliver callback userdata' dvs of
                      (ds, u, stopped) \<Rightarrow> (dv # ds, u, stopped)))"

text \<open>How \<open>foreach\<close> ends once the dives \<open>newer\<close> out of \<open>recs\<close> went to the callback.\<close>

definition walk_result ::
  "32 word \<Rightarrow> 32 word \<Rightarrow> (dive_t \<Rightarrow> 'u \<Rightarrow> bool \<times> 'u) option \<Rightarrow> 'u \<Rightarrow> foreach_state \<Rightarrow>
     dive_t list \<Rightarrow> dive_t list \<Rightarrow> dive_t list \<Rightarrow> 'u foreach_result" where
  "walk_result model bufsize callback userdata st dives recs newer =
     (case deliver callback userdata newer of
        (ds, u, stopped) \<Rightarrow>
          if stopped \<or> length newer < length recs then Returned DC_STATUS_SUCCESS (dives @ ds) u
          else case ring_end model bufsize st of
                 Fault \<Rightarrow> Out_of_bounds
               | Stop st' \<Rightarrow> Returned (fs_rc st') (dives @ ds) u
               | Dive dv st' \<Rightarrow> Returned (fs_rc st') (dives @ ds) u)"

declare foreach_loop.simps [simp del]
declare ring_dives.simps [simp del]
declare ring_end.simps [simp del]

lemma foreach_loop_walk:
  "foreach_loop device bufsize callback userdata st dives =
     walk_result (dev_model device) bufsize callback userdata st dives
       (ring_dives (dev_model device) bufsize st)
       (takeWhile (\<lambda>dv. dv_fingerprint dv \<noteq> dev_fingerprint device)
          (ring_dives (dev_model device) bufsize st))"
proof (induction device bufsize callback userdata st dives rule: foreach_loop.induct)
  case (1 device bufsize callback userdata st dives)
  let ?m = "dev_model device"
  show ?case
  proof (cases "foreach_body ?m bufsize st")
    case Fault
    then show ?thesis
      by (simp add: foreach_loop.simps[of device bufsize callback userdata st dives]
            ring_dives.simps[of ?m bufsize st] ring_end.simps[of ?m bufsize st] walk_result_def)
  next
    case (Stop st')
    then show ?thesis
      by (simp add: foreach_loop.simps[of device bufsize callback userdata st dives]
            ring_dives.simps[of ?m bufsize st] ring_end.simps[of ?m bufsize st] walk_result_def)
  next
    case (Dive dv st')
    note rc = foreach_body_Dive_offset[OF Dive]
    have rd: "ring_dives ?m bufsize st = dv # ring_dives ?m bufsize st'"
      using Dive by (simp add: ring_dives.simps[of ?m bufsize st])
    have re: "ring_end ?m bufsize st = ring_end ?m bufsize st'"
      using Dive by (simp add: ring_end.simps[of ?m bufsize st])
    have step: "foreach_loop device bufsize callback userdata st dives =
       (if dv_fingerprint dv = dev_fingerprint device then Returned (fs_rc st') dives userdata
        else case callback of
          None \<Rightarrow> foreach_loop device bufsize callback userdata st' dives
        | Some f \<Rightarrow>
            (case f dv userdata of
               (continue, userdata') \<Rightarrow>
                 if \<not> continue then Returned (fs_rc st') (dives @ [dv]) userdata'
                 else foreach_loop device bufsize callback userdata' st' (dives @ [dv])))"
      using Dive by (simp add: foreach_loop.simps[of device bufsize callback userdata st dives])
    show ?thesis
    proof (cases "dv_fingerprint dv = dev_fingerprint device")
      case True
      then show ?thesis
        unfolding step rd using rc by (simp add: walk_result_def)
    next
      case nomatch: False
      show ?thesis
      proof (cases callback)
        case None
        from "1.IH"(1)[OF Dive nomatch None]
        show ?thesis
          unfolding step rd re using nomatch None
          by (simp add: walk_result_def re split: prod.splits step.splits)
      next
        case (Some f)
        obtain c u' where f: "f dv userdata = (c, u')" by (cases "f dv userdata")
        show ?thesis
        proof (cases c)
          case False
          then show ?thesis
            unfolding step rd using nomatch Some f rc
            by (simp add: walk_result_def)
        next
          case True
          from "1.IH"(2)[OF Dive nomatch Some f[symmetric] _] True
          have "foreach_loop device bufsize callback u' st' (dives @ [dv]) =
                  walk_result ?m bufsize callback u' st' (dives @ [dv])
                    (ring_dives ?m bufsize st')
                    (takeWhile (\<lambda>dv. dv_fingerprint dv \<noteq> dev_fingerprint device)
                       (ring_dives ?m bufsize st'))"
            by simp
          then show ?thesis
            unfolding step rd re using nomatch Some f True
            by (simp add: walk_result_def re split: prod.splits step.splits)
        qed
      qed
    qed
  qed
qed

lemma ring_dives_offsets:
  "\<forall>dv \<in> set (ring_dives model bufsize st). dv_offset dv < fs_offset st"
proof (induction model bufsize st rule: ring_dives.induct)
  case (1 model bufsize st)
  show ?case
  proof (cases "foreach_body model bufsize st")
    case (Dive dv st')
    note o = foreach_body_Dive_offset[OF Dive]
    from "1.IH"[OF Dive] o have "\<forall>d \<in> set (ring_dives model bufsize st'). dv_offset d < fs_offset st"
      by (auto intro: less_trans)
    with o Dive show ?thesis by (simp add: ring_dives.simps[of model bufsize st])
  qed (simp_all add: ring_dives.simps[of model bufsize st])
qed

lemma ring_dives_sorted:
  "sorted_wrt (\<lambda>a b. dv_offset b < dv_offset a) (ring_dives model bufsize st)"
proof (induction model bufsize st rule: ring_dives.induct)
  case (1 model bufsize st)
  show ?case
  proof (cases "foreach_body model bufsize st")
    case (Dive dv st')
    note o = foreach_body_Dive_offset[OF Dive]
    from ring_dives_offsets[of model bufsize st'] o
    have "\<forall>d \<in> set (ring_dives model bufsize st'). dv_offset d < dv_offset dv" by simp
    with "1.IH"[OF Dive] Dive show ?thesis by (simp add: ring_dives.simps[of model bufsize st])
  qed (simp_all add: ring_dives.simps[of model bufsize st])
qed

lemma ring_dives_body:
  "dv \<in> set (ring_dives model bufsize st) \<Longrightarrow> \<exists>s s'. foreach_body model bufsize s = Dive dv s'"
proof (induction model bufsize st rule: ring_dives.induct)
  case (1 model bufsize st)
  show ?case
  proof (cases "foreach_body model bufsize st")
    case (Dive d st')
    with "1.prems" have "dv = d \<or> dv \<in> set (ring_dives model bufsize st')"
      by (simp add: ring_dives.simps[of model bufsize st])
    with "1.IH"[OF Dive] Dive show ?thesis by blast
  next
    case Fault
    with "1.prems" show ?thesis by (simp add: ring_dives.simps[of model bufsize st])
  next
    case (Stop s)
    with "1.prems" show ?thesis by (simp add: ring_dives.simps[of model bufsize st])
  qed
qed

lemma deliver_None: "deliver None userdata xs = ([], userdata, False)"
  by (induction xs) simp_all

lemma deliver_Some:
  "deliver (Some f) userdata xs = (ds, u, stopped) \<Longrightarrow>
     (\<exists>rest. xs = ds @ rest) \<and> (\<not> stopped \<longrightarrow> ds = xs)"
proof (induction xs arbitrary: userdata ds u stopped)
  case Nil
  then show ?case by simp
next
  case (Cons x xs)
  obtain c u' where f: "f x userdata = (c, u')" by (cases "f x userdata")
  show ?case
  proof (cases c)
    case False
    with Cons.prems f show ?thesis by auto
  next
    case True
    obtain ds' u'' s' where d: "deliver (Some f) u' xs = (ds', u'', s')"
      by (cases "deliver (Some f) u' xs")
    from Cons.IH[OF d] Cons.prems f True d show ?thesis by auto
  qed
qed

text \<open>
  The fingerprint slice in the words of the spec, from the bytes of a record alone: ten
  bytes at the fingerprint offset of its model and mode inside its header, the header
  being the last \<open>headersize\<close> bytes.
\<close>

definition record_fingerprint :: "32 word \<Rightarrow> byte list \<Rightarrow> byte list" where
  "record_fingerprint model data =
     (let mini = drop (length data - unat (dive_header model)) data;
          smart = (model = SMART \<or> model = SMARTAPNEA \<or> model = SMARTAIR);
          dtype = array_uint16_le (take 2 (drop (if smart then 2 else 0) mini))
      in case dive_sizes model (dtype AND 0x03) of
           (headersize, samplesize, fingerprint) \<Rightarrow>
             take 10 (drop (unat fingerprint) (drop (length data - unat headersize) data)))"

lemma foreach_body_Dive_fingerprint:
  assumes "foreach_body model bufsize st = Dive dv st'"
  shows "dv_fingerprint dv = record_fingerprint model (dv_data dv)"
proof -
  from foreach_body_Dive_record[OF assms] obtain bs rb' dtype nsamples headersize samplesize fingerprint
    where mf: "mini_fields model bs = (dtype, nsamples)"
      and sz: "dive_sizes model (dtype AND 0x03) = (headersize, samplesize, fingerprint)"
      and hn: "headersize \<le> dv_size dv"
      and off: "uint (fs_offset st') = uint (fs_offset st) - uint (dv_size dv)"
      and dd: "dv_data dv = load (fs_buffer st') (uint (fs_offset st')) (unat (dv_size dv))"
      and fp: "dv_fingerprint dv =
                 load (fs_buffer st') (uint (fs_offset st) - uint headersize + uint fingerprint) 10"
      and mini: "load (fs_buffer st') (uint (fs_offset st) - uint (dive_header model))
                   (unat (dive_header model)) = bs"
    by blast
  let ?buf = "fs_buffer st'"
  let ?n = "unat (dv_size dv)"
  let ?h = "dive_header model"
  let ?hdr = "uint (fs_offset st) - uint headersize"
  note b = dive_sizes_bounds[OF sz]
  have hh: "unat ?h \<le> unat headersize" using b by (simp add: word_le_nat_alt)
  have hn': "unat headersize \<le> ?n" using hn by (simp add: word_le_nat_alt)
  have fb: "unat fingerprint + 10 \<le> unat headersize"
  proof -
    from b have "fingerprint + 10 \<le> headersize" "fingerprint \<le> 0x40" by simp_all
    then show ?thesis by (simp add: word_le_nat_alt unat_word_ariths)
  qed
  have i1: "int (?n - unat ?h) = uint (dv_size dv) - uint ?h"
    using hh hn' by (simp add: of_nat_diff)
  have i2: "int (?n - unat headersize) = uint (dv_size dv) - uint headersize"
    using hn' by (simp add: of_nat_diff)
  have m1: "drop (length (dv_data dv) - unat ?h) (dv_data dv) = bs"
  proof -
    have "drop (?n - unat ?h) (load ?buf (uint (fs_offset st')) ?n) =
          load ?buf (uint (fs_offset st') + int (?n - unat ?h)) (?n - (?n - unat ?h))"
      by (rule drop_load) simp
    also have "uint (fs_offset st') + int (?n - unat ?h) = uint (fs_offset st) - uint ?h"
      using off i1 by simp
    also have "?n - (?n - unat ?h) = unat ?h" using hh hn' by simp
    finally show ?thesis using mini by (simp add: dd)
  qed
  have m2: "drop (length (dv_data dv) - unat headersize) (dv_data dv) = load ?buf ?hdr (unat headersize)"
  proof -
    have "drop (?n - unat headersize) (load ?buf (uint (fs_offset st')) ?n) =
          load ?buf (uint (fs_offset st') + int (?n - unat headersize)) (?n - (?n - unat headersize))"
      by (rule drop_load) simp
    also have "uint (fs_offset st') + int (?n - unat headersize) = ?hdr"
      using off i2 by simp
    also have "?n - (?n - unat headersize) = unat headersize" using hn' by simp
    finally show ?thesis by (simp add: dd)
  qed
  have f: "take 10 (drop (unat fingerprint) (load ?buf ?hdr (unat headersize))) =
             load ?buf (?hdr + uint fingerprint) 10"
    using load_take_drop[of "unat fingerprint" 10 "unat headersize" ?buf ?hdr] fb by simp
  have dte: "array_uint16_le (take 2 (drop (if model = SMART \<or> model = SMARTAPNEA \<or> model = SMARTAIR
                                            then 2 else 0) bs)) = dtype"
    using mf by (auto simp: mini_fields_def Let_def split: if_splits)
  show ?thesis
    unfolding record_fingerprint_def Let_def m1 dte sz prod.case m2 f fp by simp
qed


text \<open>
  \<open>mares_iconhd_device_set_fingerprint\<close>; \<open>data\<close> holds the \<open>size\<close> bytes the caller passes.
\<close>

definition mares_iconhd_device_set_fingerprint ::
  "mares_iconhd_device_t \<Rightarrow> byte list \<Rightarrow> dc_status \<times> mares_iconhd_device_t" where
  "mares_iconhd_device_set_fingerprint device data =
     (let size = length data
      in if size \<noteq> 0 \<and> size \<noteq> 10 then (DC_STATUS_INVALIDARGS, device)
         else if size \<noteq> 0 then (DC_STATUS_SUCCESS, device\<lparr>dev_fingerprint := take 10 data\<rparr>)
         else (DC_STATUS_SUCCESS, device\<lparr>dev_fingerprint := replicate 10 0\<rparr>))"

text \<open>
  The loop from any state: \<open>recs\<close> are the records the enumerator reconstructs from the
  state \<open>st\<close> on, \<open>newer\<close> those before the first one whose fingerprint equals the
  fingerprint of the session, and \<open>(ds, u, stopped)\<close> the delivery of \<open>newer\<close> to the
  callback.
\<close>

lemma foreach_loop_delivery:
  assumes "recs = ring_dives (dev_model device) bufsize st"
    and "newer = takeWhile (\<lambda>dv. dv_fingerprint dv \<noteq> dev_fingerprint device) recs"
    and "deliver callback userdata newer = (ds, u, stopped)"
  shows "(\<forall>dv \<in> set recs. dv_fingerprint dv = record_fingerprint (dev_model device) (dv_data dv)) \<and>
         sorted_wrt (\<lambda>a b. dv_offset b < dv_offset a) recs \<and>
         (length newer < length recs \<longrightarrow>
            dv_fingerprint (recs ! length newer) = dev_fingerprint device \<and>
            foreach_loop device bufsize callback userdata st dives =
              Returned DC_STATUS_SUCCESS (dives @ ds) u) \<and>
         (stopped \<longrightarrow>
            foreach_loop device bufsize callback userdata st dives =
              Returned DC_STATUS_SUCCESS (dives @ ds) u) \<and>
         (\<not> stopped \<and> length newer = length recs \<longrightarrow>
            foreach_loop device bufsize callback userdata st dives =
              (case ring_end (dev_model device) bufsize st of
                 Fault \<Rightarrow> Out_of_bounds
               | Stop st' \<Rightarrow> Returned (fs_rc st') (dives @ ds) u
               | Dive dv st' \<Rightarrow> Returned (fs_rc st') (dives @ ds) u)) \<and>
         (\<forall>dv \<in> set ds. dv_fingerprint dv \<noteq> dev_fingerprint device) \<and>
         (callback = None \<longrightarrow> ds = [] \<and> \<not> stopped) \<and>
         (callback \<noteq> None \<longrightarrow> (\<exists>rest. newer = ds @ rest) \<and> (\<not> stopped \<longrightarrow> ds = newer))"
proof -
  let ?m = "dev_model device"
  have a: "\<forall>dv \<in> set recs. dv_fingerprint dv = record_fingerprint ?m (dv_data dv)"
    unfolding assms(1) using ring_dives_body foreach_body_Dive_fingerprint by blast
  have b: "sorted_wrt (\<lambda>a b. dv_offset b < dv_offset a) recs"
    unfolding assms(1) by (rule ring_dives_sorted)
  have le: "length newer \<le> length recs" unfolding assms(2) by (rule length_takeWhile_le)
  have w: "foreach_loop device bufsize callback userdata st dives =
             walk_result ?m bufsize callback userdata st dives recs newer"
    unfolding assms(1,2) by (rule foreach_loop_walk)
  have c1: "dv_fingerprint (recs ! length newer) = dev_fingerprint device"
    if "length newer < length recs"
    using that nth_length_takeWhile[of "\<lambda>dv. dv_fingerprint dv \<noteq> dev_fingerprint device" recs]
    unfolding assms(2) by simp
  have c2: "foreach_loop device bufsize callback userdata st dives =
              Returned DC_STATUS_SUCCESS (dives @ ds) u"
    if "length newer < length recs \<or> stopped"
    using that w assms(3) by (auto simp: walk_result_def)
  have d: "foreach_loop device bufsize callback userdata st dives =
              (case ring_end ?m bufsize st of
                 Fault \<Rightarrow> Out_of_bounds
               | Stop st' \<Rightarrow> Returned (fs_rc st') (dives @ ds) u
               | Dive dv st' \<Rightarrow> Returned (fs_rc st') (dives @ ds) u)"
    if "\<not> stopped" "length newer = length recs"
    using that w assms(3) by (simp add: walk_result_def)
  have n: "ds = [] \<and> \<not> stopped" if "callback = None"
    using that assms(3) by (simp add: deliver_None)
  have s: "(\<exists>rest. newer = ds @ rest) \<and> (\<not> stopped \<longrightarrow> ds = newer)" if "callback \<noteq> None"
  proof -
    from that obtain f where "callback = Some f" by auto
    with assms(3) deliver_Some[of f userdata newer ds u stopped] show ?thesis by simp
  qed
  have sub: "set ds \<subseteq> set newer"
  proof (cases callback)
    case None
    with n show ?thesis by simp
  next
    case (Some f)
    with s obtain rest where "newer = ds @ rest" by auto
    then show ?thesis by auto
  qed
  have e: "\<forall>dv \<in> set ds. dv_fingerprint dv \<noteq> dev_fingerprint device"
  proof
    fix dv assume "dv \<in> set ds"
    with sub have "dv \<in> set newer" by auto
    then show "dv_fingerprint dv \<noteq> dev_fingerprint device"
      unfolding assms(2) by (auto dest: set_takeWhileD)
  qed
  from a b c1 c2 d e n s show ?thesis by blast
qed

text \<open>
  A SMART freedive record of one sample whose fingerprint is ten times \<open>tag\<close>, and a
  callback that counts its calls.
\<close>

definition tagged_record :: "byte \<Rightarrow> byte list" where
  "tagged_record tag =
     [0x38, 0, 0, 0] @ [1, 2, 3, 4, 5, 6] @ replicate 32 0 @ replicate 10 tag @ [1, 0, 3, 0]"

lemma deliver_count_dives:
  "deliver (Some count_dives) n xs = (xs, n + int (length xs), False)"
  by (induction xs arbitrary: n) (simp_all add: count_dives_def)

section \<open>The records and the ring\<close>

lemma rb_fetch_append:
  "rb_fetch mem b e a n = (bs1, a1) \<Longrightarrow> rb_fetch mem b e a1 m = (bs2, a2) \<Longrightarrow>
     rb_fetch mem b e a (n + m) = (bs2 @ bs1, a2)"
proof (induction n arbitrary: a bs1 a1)
  case 0
  then show ?case by simp
next
  case (Suc n)
  let ?a' = "(if a = b then e else a) - 1"
  obtain bs a'' where f: "rb_fetch mem b e ?a' n = (bs, a'')" by (cases "rb_fetch mem b e ?a' n")
  with Suc.prems(1) have e: "bs1 = bs @ [mem ?a']" "a1 = a''" by (simp_all add: Let_def)
  from Suc.IH[OF f Suc.prems(2)[unfolded e]] have "rb_fetch mem b e ?a' (n + m) = (bs2 @ bs, a2)" .
  then show ?case using e by (simp add: Let_def)
qed

lemma dc_rbstream_read_fetch:
  assumes "dc_rbstream_read rb n = (DC_STATUS_SUCCESS, bs, rb')"
  shows "rb_fetch (rb_memory rb) (rb_begin rb) (rb_end rb) (rb_address rb) n =
           (bs, rb_address rb') \<and>
         rb_memory rb' = rb_memory rb \<and> rb_begin rb' = rb_begin rb \<and> rb_end rb' = rb_end rb"
proof -
  obtain bs0 a where f: "rb_fetch (rb_memory rb) (rb_begin rb) (rb_end rb) (rb_address rb) n = (bs0, a)"
    by (cases "rb_fetch (rb_memory rb) (rb_begin rb) (rb_end rb) (rb_address rb) n")
  from assms f have "bs = bs0"
    and "rb' = rb\<lparr>rb_results := tl (rb_results rb), rb_sizes := rb_sizes rb @ [n],
                   rb_address := a\<rparr>"
    by (auto simp: dc_rbstream_read_def Let_def split: if_splits)
  with f show ?thesis by simp
qed

lemma load_append: "load buf i (n + m) = load buf i n @ load buf (i + int n) m"
  by (auto simp: load_def list_eq_iff_nth_eq nth_append add.assoc)

text \<open>
  The scratch buffer from \<open>pos\<close> to its end holds what the ring accessor delivers for one
  backward read of that many bytes at the write pointer \<open>eop\<close>, and the accessor stands
  where that read would leave it.
\<close>

definition ring_synced ::
  "(32 word \<Rightarrow> byte) \<Rightarrow> 32 word \<Rightarrow> 32 word \<Rightarrow> 32 word \<Rightarrow> 32 word \<Rightarrow> foreach_state \<Rightarrow> int \<Rightarrow> bool" where
  "ring_synced mem b e eop bufsize st pos \<longleftrightarrow>
     rb_memory (fs_rbstream st) = mem \<and> rb_begin (fs_rbstream st) = b \<and>
     rb_end (fs_rbstream st) = e \<and> 0 \<le> pos \<and> pos \<le> uint bufsize \<and>
     rb_fetch mem b e eop (nat (uint bufsize - pos)) =
       (load (fs_buffer st) pos (nat (uint bufsize - pos)), rb_address (fs_rbstream st))"

lemma ring_synced_read:
  assumes "ring_synced mem b e eop bufsize st pos"
    and "rb_read_into bufsize st (pos - uint n) n = Some st1"
    and "fs_rc st1 = DC_STATUS_SUCCESS"
  shows "ring_synced mem b e eop bufsize st1 (pos - uint n)"
proof -
  let ?k = "nat (uint bufsize - pos)"
  let ?p = "pos - uint n"
  from assms(1) have rb: "rb_memory (fs_rbstream st) = mem" "rb_begin (fs_rbstream st) = b"
      "rb_end (fs_rbstream st) = e" and pos: "0 \<le> pos" "pos \<le> uint bufsize"
    and old: "rb_fetch mem b e eop ?k = (load (fs_buffer st) pos ?k, rb_address (fs_rbstream st))"
    by (simp_all add: ring_synced_def)
  from rb_read_into_props[OF assms(2)] assms(3) obtain bs where
    p0: "0 \<le> ?p" and len: "length bs = unat n"
    and buf: "fs_buffer st1 = store (fs_buffer st) ?p bs"
    and rd: "dc_rbstream_read (fs_rbstream st) (unat n) = (DC_STATUS_SUCCESS, bs, fs_rbstream st1)"
    by auto
  from dc_rbstream_read_fetch[OF rd] rb
  have f: "rb_fetch mem b e (rb_address (fs_rbstream st)) (unat n) =
             (bs, rb_address (fs_rbstream st1))"
    and rb1: "rb_memory (fs_rbstream st1) = mem" "rb_begin (fs_rbstream st1) = b"
      "rb_end (fs_rbstream st1) = e"
    by simp_all
  have k: "nat (uint bufsize - ?p) = unat n + ?k"
  proof -
    have "uint bufsize - ?p = uint n + (uint bufsize - pos)" by simp
    moreover have "nat (uint n + (uint bufsize - pos)) = nat (uint n) + nat (uint bufsize - pos)"
      using pos by (intro nat_add_distrib) simp_all
    ultimately show ?thesis by simp
  qed
  have pl: "?p + int (unat n) = pos" by simp
  have l1: "load (fs_buffer st1) ?p (unat n) = bs"
    unfolding buf using load_store_inside[of 0 "unat n" bs "fs_buffer st" ?p] len by simp
  have l2: "load (fs_buffer st1) pos ?k = load (fs_buffer st) pos ?k"
    unfolding buf by (rule load_store_outside) (simp add: len)
  have ld: "load (fs_buffer st1) ?p (unat n + ?k) = bs @ load (fs_buffer st) pos ?k"
    unfolding load_append pl l1 l2 ..
  from rb_fetch_append[OF old f]
  have "rb_fetch mem b e eop (?k + unat n) =
          (bs @ load (fs_buffer st) pos ?k, rb_address (fs_rbstream st1))" .
  then have "rb_fetch mem b e eop (nat (uint bufsize - ?p)) =
          (load (fs_buffer st1) ?p (nat (uint bufsize - ?p)), rb_address (fs_rbstream st1))"
    unfolding k ld by (simp add: add.commute)
  moreover have "?p \<le> uint bufsize" using pos uint_ge_0[of n] by linarith
  ultimately show ?thesis using rb1 p0 by (simp add: ring_synced_def)
qed

lemma ring_synced_Dive:
  assumes "ring_synced mem b e eop bufsize st (uint (fs_offset st))"
    and "foreach_body model bufsize st = Dive dv st'"
  shows "ring_synced mem b e eop bufsize st' (uint (fs_offset st')) \<and>
         dv_data dv = take (unat (dv_size dv))
                        (fst (rb_fetch mem b e eop (nat (uint bufsize - uint (dv_offset dv)))))"
  using assms(2)
proof (rule foreach_body_DiveE)
  fix st1 st2 st3 dtype nsamples headersize samplesize fingerprint nbytes
  let ?off = "uint (fs_offset st)"
  let ?h = "dive_header model"
  assume r1: "rb_read_into bufsize st (?off - uint ?h) ?h = Some st1"
    and rc1: "fs_rc st1 = DC_STATUS_SUCCESS"
    and sz: "dive_sizes model (dtype AND 0x03) = (headersize, samplesize, fingerprint)"
    and hs: "headersize \<le> fs_offset st"
    and r2: "rb_read_into bufsize st1 (?off - uint headersize) (headersize - ?h) = Some st2"
    and rc2: "fs_rc st2 = DC_STATUS_SUCCESS"
    and nbo: "nbytes \<le> fs_offset st"
    and r3: "rb_read_into bufsize st2 (?off - uint nbytes) (nbytes - headersize) = Some st3"
    and rc3: "fs_rc st3 = DC_STATUS_SUCCESS"
    and dv: "dv = \<lparr>dv_offset = fs_offset st - nbytes,
           dv_data = load (fs_buffer st3) (uint (fs_offset st - nbytes)) (unat nbytes),
           dv_size = nbytes,
           dv_fingerprint = load (fs_buffer st3)
             (uint (fs_offset st - nbytes) + uint nbytes - uint headersize + uint fingerprint) 10,
           dv_fsize = 10\<rparr>"
    and st': "st' = st3\<lparr>fs_offset := fs_offset st - nbytes\<rparr>"
  note bd = dive_sizes_bounds[OF sz]
  from rb_read_into_props[OF r3]
  have "?off - uint nbytes + uint (nbytes - headersize) \<le> uint bufsize" by simp
  from foreach_body_Dive_nbytes[OF hs nbo this] have hn: "headersize \<le> nbytes" .
  have s2: "uint (headersize - ?h) = uint headersize - uint ?h"
    using bd by (simp add: uint_sub_le)
  have s3: "uint (nbytes - headersize) = uint nbytes - uint headersize"
    using hn by (simp add: uint_sub_le)
  have so: "uint (fs_offset st - nbytes) = ?off - uint nbytes"
    using nbo by (simp add: uint_sub_le)
  note y1 = ring_synced_read[OF assms(1) r1 rc1]
  have "?off - uint headersize = ?off - uint ?h - uint (headersize - ?h)" using s2 by simp
  from ring_synced_read[OF y1 r2[unfolded this] rc2]
  have y2: "ring_synced mem b e eop bufsize st2 (?off - uint headersize)" using s2 by simp
  have "?off - uint nbytes = ?off - uint headersize - uint (nbytes - headersize)" using s3 by simp
  from ring_synced_read[OF y2 r3[unfolded this] rc3]
  have y3: "ring_synced mem b e eop bufsize st3 (?off - uint nbytes)" using s3 by simp
  then have a: "ring_synced mem b e eop bufsize st' (uint (fs_offset st'))"
    unfolding st' by (simp add: ring_synced_def so)
  from y3 have le: "?off - uint nbytes \<ge> 0" "?off \<le> uint bufsize \<or> True"
    and f: "fst (rb_fetch mem b e eop (nat (uint bufsize - (?off - uint nbytes)))) =
              load (fs_buffer st3) (?off - uint nbytes) (nat (uint bufsize - (?off - uint nbytes)))"
    by (simp_all add: ring_synced_def)
  from rb_read_into_props[OF r1] have ob: "?off \<le> uint bufsize" by simp
  have n: "unat nbytes \<le> nat (uint bufsize - (?off - uint nbytes))"
  proof -
    have "uint nbytes \<le> uint bufsize - (?off - uint nbytes)" using ob by simp
    then have "nat (uint nbytes) \<le> nat (uint bufsize - (?off - uint nbytes))" by (rule nat_mono)
    then show ?thesis by simp
  qed
  have "take (unat nbytes) (load (fs_buffer st3) (?off - uint nbytes)
            (nat (uint bufsize - (?off - uint nbytes)))) =
        load (fs_buffer st3) (?off - uint nbytes) (unat nbytes)"
    using load_take_drop[of 0 "unat nbytes" _ "fs_buffer st3" "?off - uint nbytes"] n by simp
  then have d: "dv_data dv = take (unat (dv_size dv))
                        (fst (rb_fetch mem b e eop (nat (uint bufsize - uint (dv_offset dv)))))"
    unfolding dv by (simp add: so f)
  from a d show ?thesis ..
qed

lemma ring_dives_synced:
  "ring_synced mem b e eop bufsize st (uint (fs_offset st)) \<Longrightarrow>
     \<forall>dv \<in> set (ring_dives model bufsize st).
        dv_data dv = take (unat (dv_size dv))
                       (fst (rb_fetch mem b e eop (nat (uint bufsize - uint (dv_offset dv)))))"
proof (induction model bufsize st rule: ring_dives.induct)
  case (1 model bufsize st)
  show ?case
  proof (cases "foreach_body model bufsize st")
    case (Dive dv st')
    from ring_synced_Dive[OF "1.prems" Dive] "1.IH"[OF Dive] Dive
    show ?thesis by (simp add: ring_dives.simps[of model bufsize st])
  qed (simp_all add: ring_dives.simps[of model bufsize st])
qed

lemma ring_dives_adjacent:
  "rd = ring_dives model bufsize st \<Longrightarrow>
     (rd \<noteq> [] \<longrightarrow> uint (dv_offset (hd rd)) + uint (dv_size (hd rd)) = uint (fs_offset st)) \<and>
     (\<forall>k. Suc k < length rd \<longrightarrow>
        uint (dv_offset (rd ! Suc k)) + uint (dv_size (rd ! Suc k)) = uint (dv_offset (rd ! k)))"
proof (induction model bufsize st arbitrary: rd rule: ring_dives.induct)
  case (1 model bufsize st)
  show ?case
  proof (cases "foreach_body model bufsize st")
    case (Dive dv st')
    let ?r = "ring_dives model bufsize st'"
    have rd: "rd = dv # ?r" using "1.prems" Dive by (simp add: ring_dives.simps[of model bufsize st])
    note o = foreach_body_Dive_offset[OF Dive]
    note ih = "1.IH"[OF Dive refl]
    have h: "uint (dv_offset (hd rd)) + uint (dv_size (hd rd)) = uint (fs_offset st)"
      using rd o by simp
    have t: "uint (dv_offset (rd ! Suc k)) + uint (dv_size (rd ! Suc k)) = uint (dv_offset (rd ! k))"
      if "Suc k < length rd" for k
    proof (cases k)
      case 0
      with that rd have "?r \<noteq> []" by auto
      with ih o have "uint (dv_offset (hd ?r)) + uint (dv_size (hd ?r)) = uint (dv_offset dv)"
        by simp
      with 0 rd \<open>?r \<noteq> []\<close> show ?thesis by (simp add: hd_conv_nth)
    next
      case (Suc j)
      with that rd have "Suc j < length ?r" by simp
      with ih have "uint (dv_offset (?r ! Suc j)) + uint (dv_size (?r ! Suc j)) =
                    uint (dv_offset (?r ! j))" by blast
      with Suc rd show ?thesis by simp
    qed
    from h t show ?thesis by blast
  next
    case Fault
    with "1.prems" show ?thesis by (simp add: ring_dives.simps[of model bufsize st])
  next
    case (Stop s)
    with "1.prems" show ?thesis by (simp add: ring_dives.simps[of model bufsize st])
  qed
qed


section \<open>From the write pointer to the loop\<close>

lemma device_read_loop_session:
  "mares_iconhd_device_read_loop device address sz nbytes data = Some (rc, bs, d') \<Longrightarrow>
     same_session d' device"
proof (induction device address sz nbytes data rule: mares_iconhd_device_read_loop.induct)
  case (1 device address sz nbytes data)
  show ?case
  proof (cases "nbytes < sz")
    case False
    with "1.prems" show ?thesis
      by (simp add: mares_iconhd_device_read_loop.simps[of device address sz nbytes data]
                    same_session_refl)
  next
    case True
    let ?len = "if sz - nbytes > dev_packetsize device then dev_packetsize device else sz - nbytes"
    let ?command = "[0xE7, 0x42,
                        ucast (address AND 0xFF),
                        ucast (drop_bit 8 address AND 0xFF),
                        ucast (drop_bit 16 address AND 0xFF),
                        ucast (drop_bit 24 address AND 0xFF),
                        ucast (?len AND 0xFF),
                        ucast (drop_bit 8 ?len AND 0xFF),
                        ucast (drop_bit 16 ?len AND 0xFF),
                        ucast (drop_bit 24 ?len AND 0xFF)] :: byte list"
    from "1.prems" True have unf:
      "(case mares_iconhd_transfer device ?command (unat ?len) of
              None \<Rightarrow> None
            | Some (rc, answer, d1) \<Rightarrow>
                if rc \<noteq> DC_STATUS_SUCCESS then Some (rc, data, d1)
                else mares_iconhd_device_read_loop d1 (address + ?len) sz (nbytes + ?len)
                       (data @ answer)) = Some (rc, bs, d')"
      unfolding mares_iconhd_device_read_loop.simps[of device address sz nbytes data] Let_def
      by simp
    then obtain rc1 answer d1 where
      t: "mares_iconhd_transfer device ?command (unat ?len) = Some (rc1, answer, d1)"
      by (auto split: option.splits)
    from transfer_props[OF t] have s1: "same_session d1 device" by simp
    show ?thesis
    proof (cases "rc1 = DC_STATUS_SUCCESS")
      case False
      with unf t s1 show ?thesis by simp
    next
      case ok: True
      from unf t ok have r: "mares_iconhd_device_read_loop d1 (address + ?len) sz (nbytes + ?len)
                       (data @ answer) = Some (rc, bs, d')" by simp
      from "1.IH"[OF True refl refl t refl refl _ r] ok
      have "same_session d' d1" by simp
      with s1 show ?thesis by (blast intro: same_session_trans)
    qed
  qed
qed

lemma device_read_session:
  "mares_iconhd_device_read device address sz = Some (rc, bs, d') \<Longrightarrow> same_session d' device"
  unfolding mares_iconhd_device_read_def by (rule device_read_loop_session)

lemma foreach_eop_session:
  "foreach_eop device config eop = Some (rc, e, d') \<Longrightarrow> same_session d' device"
proof (induction config arbitrary: device eop)
  case Nil
  then show ?case by (simp add: same_session_refl)
next
  case (Cons address config)
  from Cons.prems obtain rc1 pointer d1 where
    r: "mares_iconhd_device_read device address 4 = Some (rc1, pointer, d1)"
    by (auto split: option.splits)
  note s1 = device_read_session[OF r]
  show ?case
  proof (cases "rc1 = DC_STATUS_SUCCESS \<and> array_uint32_le pointer = 0xFFFFFFFF")
    case True
    with Cons.prems r have "foreach_eop d1 config (array_uint32_le pointer) = Some (rc, e, d')"
      by simp
    from Cons.IH[OF this] s1 show ?thesis by (blast intro: same_session_trans)
  next
    case False
    with Cons.prems r have "d' = d1" by (auto split: if_splits)
    with s1 show ?thesis by simp
  qed
qed

text \<open>
  With the serial number and the write pointer read, the pointer in range, the ring
  accessor created and the buffer allocated, \<open>foreach\<close> is its loop started on the
  accessor anchored at the write pointer, with the offset at the size of the ring.
\<close>

lemma foreach_enters_loop:
  assumes "mares_iconhd_device_read device 0x0C 4 = Some (DC_STATUS_SUCCESS, serial, d1)"
    and "foreach_eop d1 [0x2001, 0x3001] 0 = Some (DC_STATUS_SUCCESS, eop, d2)"
    and "layout = dev_layout device"
    and "rb_profile_begin layout \<le> eop" and "eop < rb_profile_end layout"
    and "env_rbstream_new env = DC_STATUS_SUCCESS" and "env_malloc env"
  shows "mares_iconhd_device_foreach device env callback userdata =
           foreach_loop d2 (rb_profile_end layout - rb_profile_begin layout) callback userdata
             (walk_start env layout eop) [] \<and>
         same_session d2 device"
proof -
  have nr: "\<not> (eop < rb_profile_begin layout \<or> rb_profile_end layout \<le> eop)"
    using assms(4,5) by (simp add: not_le not_less)
  have a: "mares_iconhd_device_foreach device env callback userdata =
           foreach_loop d2 (rb_profile_end layout - rb_profile_begin layout) callback userdata
             (walk_start env layout eop) []"
    unfolding mares_iconhd_device_foreach_def Let_def assms(3)[symmetric] assms(1) assms(2)
      option.case prod.case
    using nr assms(6,7)
    by (simp add: walk_start_def dc_rbstream_new_def del: foreach_eop.simps)
  from device_read_session[OF assms(1)] foreach_eop_session[OF assms(2)]
  have "same_session d2 device" by (blast intro: same_session_trans)
  with a show ?thesis ..
qed

lemma walk_start_synced:
  "ring_synced (env_memory env) (rb_profile_begin layout) (rb_profile_end layout) eop
     (rb_profile_end layout - rb_profile_begin layout) (walk_start env layout eop)
     (uint (fs_offset (walk_start env layout eop)))"
  by (simp add: ring_synced_def walk_start_def dc_rbstream_new_def load_def)

text \<open>
  The \<open>n\<close> bytes of the ring of a layout that end at the write pointer \<open>eop\<close>, as the ring
  accessor delivers them.
\<close>

definition ring_below :: "foreach_env \<Rightarrow> mares_iconhd_layout_t \<Rightarrow> 32 word \<Rightarrow> nat \<Rightarrow> byte list" where
  "ring_below env layout eop n =
     fst (rb_fetch (env_memory env) (rb_profile_begin layout) (rb_profile_end layout) eop n)"

text \<open>
  C1. With the serial number and the write pointer \<open>eop\<close> read, the pointer in range, the
  ring accessor created and the buffer allocated, let \<open>recs\<close> be the records the enumerator
  reconstructs walking back from \<open>eop\<close>, \<open>newer\<close> those before the first one whose
  fingerprint equals the fingerprint of the session, and \<open>(ds, u, stopped)\<close> the delivery of
  \<open>newer\<close> to the callback. Then: the fingerprint of every record is the ten bytes at the
  fingerprint offset of its model and mode inside its header; every record is a run of
  bytes of the ring below \<open>eop\<close>, the first one ending at \<open>eop\<close> and each next one ending
  where the one before starts, so the records come newest first, in strictly decreasing
  buffer offset; the callback is called for a prefix of \<open>newer\<close>, in that order, for all of
  \<open>newer\<close> unless it returns false, and never for the matching record or an older one;
  when a record matches or the callback returns false, \<open>foreach\<close> returns SUCCESS with
  exactly these calls made; otherwise the walk runs to its end.
\<close>

theorem foreach_fingerprint:
  assumes "mares_iconhd_device_read device 0x0C 4 = Some (DC_STATUS_SUCCESS, serial, d1)"
    and "foreach_eop d1 [0x2001, 0x3001] 0 = Some (DC_STATUS_SUCCESS, eop, d2)"
    and "layout = dev_layout device"
    and "rb_profile_begin layout \<le> eop" and "eop < rb_profile_end layout"
    and "env_rbstream_new env = DC_STATUS_SUCCESS" and "env_malloc env"
    and "bufsize = rb_profile_end layout - rb_profile_begin layout"
    and "recs = ring_dives (dev_model device) bufsize (walk_start env layout eop)"
    and "newer = takeWhile (\<lambda>dv. dv_fingerprint dv \<noteq> dev_fingerprint device) recs"
    and "deliver callback userdata newer = (ds, u, stopped)"
  shows "(\<forall>dv \<in> set recs. dv_fingerprint dv = record_fingerprint (dev_model device) (dv_data dv)) \<and>
         (\<forall>dv \<in> set recs.
            dv_data dv = take (unat (dv_size dv))
                           (ring_below env layout eop (nat (uint bufsize - uint (dv_offset dv))))) \<and>
         (recs \<noteq> [] \<longrightarrow> uint (dv_offset (hd recs)) + uint (dv_size (hd recs)) = uint bufsize) \<and>
         (\<forall>k. Suc k < length recs \<longrightarrow>
            uint (dv_offset (recs ! Suc k)) + uint (dv_size (recs ! Suc k)) =
              uint (dv_offset (recs ! k))) \<and>
         sorted_wrt (\<lambda>a b. dv_offset b < dv_offset a) recs \<and>
         (length newer < length recs \<longrightarrow>
            dv_fingerprint (recs ! length newer) = dev_fingerprint device \<and>
            mares_iconhd_device_foreach device env callback userdata =
              Returned DC_STATUS_SUCCESS ds u) \<and>
         (stopped \<longrightarrow>
            mares_iconhd_device_foreach device env callback userdata =
              Returned DC_STATUS_SUCCESS ds u) \<and>
         (\<not> stopped \<and> length newer = length recs \<longrightarrow>
            mares_iconhd_device_foreach device env callback userdata =
              (case ring_end (dev_model device) bufsize (walk_start env layout eop) of
                 Fault \<Rightarrow> Out_of_bounds
               | Stop st' \<Rightarrow> Returned (fs_rc st') ds u
               | Dive dv st' \<Rightarrow> Returned (fs_rc st') ds u)) \<and>
         (\<forall>dv \<in> set ds. dv_fingerprint dv \<noteq> dev_fingerprint device) \<and>
         (callback = None \<longrightarrow> ds = [] \<and> \<not> stopped) \<and>
         (callback \<noteq> None \<longrightarrow> (\<exists>rest. newer = ds @ rest) \<and> (\<not> stopped \<longrightarrow> ds = newer))"
proof -
  let ?st = "walk_start env layout eop"
  from foreach_enters_loop[OF assms(1-7), of callback userdata]
  have run: "mares_iconhd_device_foreach device env callback userdata =
               foreach_loop d2 bufsize callback userdata ?st []"
    and ss: "same_session d2 device"
    unfolding assms(8) by simp_all
  from ss have m: "dev_model d2 = dev_model device"
    and f: "dev_fingerprint d2 = dev_fingerprint device"
    by (simp_all add: same_session_def)
  have h1: "recs = ring_dives (dev_model d2) bufsize ?st" unfolding m by (rule assms(9))
  have h2: "newer = takeWhile (\<lambda>dv. dv_fingerprint dv \<noteq> dev_fingerprint d2) recs"
    unfolding f by (rule assms(10))
  note walk = foreach_loop_delivery[OF h1 h2 assms(11), of "[]", unfolded m f append_Nil run[symmetric]]
  have data: "\<forall>dv \<in> set recs.
            dv_data dv = take (unat (dv_size dv))
                           (ring_below env layout eop (nat (uint bufsize - uint (dv_offset dv))))"
    unfolding assms(9) ring_below_def
    using ring_dives_synced[OF walk_start_synced[of env layout eop], of "dev_model device"]
    unfolding assms(8) .
  have adj: "(recs \<noteq> [] \<longrightarrow> uint (dv_offset (hd recs)) + uint (dv_size (hd recs)) = uint bufsize) \<and>
         (\<forall>k. Suc k < length recs \<longrightarrow>
            uint (dv_offset (recs ! Suc k)) + uint (dv_size (recs ! Suc k)) =
              uint (dv_offset (recs ! k)))"
    using ring_dives_adjacent[OF assms(9)] by (simp add: walk_start_def assms(8))
  from walk data adj show ?thesis by blast
qed


theorem foreach_fingerprint_witness:
  "map dv_fingerprint
     (ring_dives SMART 0x36000
        (walk_start (ring_env (0xB000 - 0xA8) (tagged_record 3 @ tagged_record 2 @ tagged_record 1))
           mares_nemowide2_layout 0xB000)) =
     [replicate 10 1, replicate 10 2, replicate 10 3] \<and>
   map dv_data
     (ring_dives SMART 0x36000
        (walk_start (ring_env (0xB000 - 0xA8) (tagged_record 3 @ tagged_record 2 @ tagged_record 1))
           mares_nemowide2_layout 0xB000)) =
     [tagged_record 1, tagged_record 2, tagged_record 3] \<and>
   mares_iconhd_device_foreach
     (snd (mares_iconhd_device_set_fingerprint
             (pointer_device SMART [[0x78, 0x56, 0x34, 0x12], [0x00, 0xB0, 0x00, 0x00]])
             (replicate 10 2)))
     (ring_env (0xB000 - 0xA8) (tagged_record 3 @ tagged_record 2 @ tagged_record 1))
     (Some count_dives) 0 =
     Returned DC_STATUS_SUCCESS
       (take 1 (ring_dives SMART 0x36000
          (walk_start (ring_env (0xB000 - 0xA8) (tagged_record 3 @ tagged_record 2 @ tagged_record 1))
             mares_nemowide2_layout 0xB000))) 1"
proof -
  let ?a = "[[0x78, 0x56, 0x34, 0x12], [0x00, 0xB0, 0x00, 0x00 :: byte]]"
  let ?c0 = "[[0xE7, 0x42], [0x0C, 0, 0, 0, 4, 0, 0, 0 :: byte]]"
  let ?c1 = "?c0 @ [[0xE7, 0x42], [0x01, 0x20, 0, 0, 4, 0, 0, 0 :: byte]]"
  let ?d = "snd (mares_iconhd_device_set_fingerprint (pointer_device SMART ?a) (replicate 10 2))"
  let ?env = "ring_env (0xB000 - 0xA8) (tagged_record 3 @ tagged_record 2 @ tagged_record 1)"
  let ?st = "walk_start ?env mares_nemowide2_layout 0xB000"
  let ?recs = "ring_dives SMART 0x36000 ?st"
  let ?P = "\<lambda>dv. dv_fingerprint dv \<noteq> dev_fingerprint ?d"
  let ?newer = "takeWhile ?P ?recs"
  have m: "dev_model ?d = SMART"
    by (simp add: mares_iconhd_device_set_fingerprint_def pointer_device_def)
  have f: "dev_fingerprint ?d = replicate 10 2"
    by (simp add: mares_iconhd_device_set_fingerprint_def pointer_device_def)
  have l: "dev_layout ?d = mares_nemowide2_layout" by code_simp
  have b: "rb_profile_end mares_nemowide2_layout - rb_profile_begin mares_nemowide2_layout = 0x36000"
    by (simp add: mares_nemowide2_layout_def)
  have h1: "mares_iconhd_device_read ?d 0x0C 4 =
              Some (DC_STATUS_SUCCESS, [0x78, 0x56, 0x34, 0x12], requested ?d (drop 1 ?a) ?c0)"
    by code_simp
  have h2: "foreach_eop (requested ?d (drop 1 ?a) ?c0) [0x2001, 0x3001] 0 =
              Some (DC_STATUS_SUCCESS, 0xB000, requested ?d [] ?c1)"
    by code_simp
  have h3: "mares_nemowide2_layout = dev_layout ?d" unfolding l ..
  have h4: "rb_profile_begin mares_nemowide2_layout \<le> 0xB000"
    by (simp add: mares_nemowide2_layout_def)
  have h5: "0xB000 < rb_profile_end mares_nemowide2_layout"
    by (simp add: mares_nemowide2_layout_def)
  have h6: "env_rbstream_new ?env = DC_STATUS_SUCCESS" by (simp add: ring_env_def)
  have h7: "env_malloc ?env" by (simp add: ring_env_def)
  have h8: "0x36000 = rb_profile_end mares_nemowide2_layout - rb_profile_begin mares_nemowide2_layout"
    unfolding b ..
  have h9: "?recs = ring_dives (dev_model ?d) 0x36000 ?st" unfolding m ..
  have fps: "map dv_fingerprint ?recs = [replicate 10 1, replicate 10 2, replicate 10 3]"
    by code_simp
  have dat: "map dv_data ?recs = [tagged_record 1, tagged_record 2, tagged_record 3]"
    by code_simp
  from fps obtain r1 r2 r3 where recs: "?recs = [r1, r2, r3]"
    and r: "dv_fingerprint r1 = replicate 10 1" "dv_fingerprint r2 = replicate 10 2"
    by (auto simp: map_eq_Cons_conv)
  have nw: "?newer = [r1]" unfolding recs f using r by simp
  have h11: "deliver (Some count_dives) 0 ?newer = (?newer, 0 + int (length ?newer), False)"
    by (rule deliver_count_dives)
  from foreach_fingerprint[OF h1 h2 h3 h4 h5 h6 h7 h8 h9 refl h11] nw recs
  have "mares_iconhd_device_foreach ?d ?env (Some count_dives) 0 =
          Returned DC_STATUS_SUCCESS (take 1 ?recs) 1"
    by simp
  with fps dat show ?thesis by blast
qed

section \<open>Claim about a write pointer at the start of the ring\<close>









section \<open>Claim about the bounds of the scratch buffer\<close>

lemma array_uint16_le_bound: "uint (array_uint16_le p) < 0x10000"
proof -
  have "take_bit 16 (array_uint16_le p) = array_uint16_le p"
    unfolding array_uint16_le_def
    by (rule bit_word_eqI) (auto simp: bit_simps dest: bit_imp_le_length)
  then have "uint (array_uint16_le p) = uint (take_bit 16 (array_uint16_le p))" by simp
  also have "\<dots> = take_bit 16 (uint (array_uint16_le p))" by (simp add: unsigned_take_bit_eq)
  also have "\<dots> < 2 ^ 16" by (rule take_bit_int_less_exp)
  finally show ?thesis by simp
qed

lemma rb_read_into_ok:
  "0 \<le> pos \<Longrightarrow> pos + uint n \<le> uint bufsize \<Longrightarrow> \<exists>st1. rb_read_into bufsize st pos n = Some st1"
  by (simp add: rb_read_into_def split: prod.splits)

text \<open>
  Without the dive time of a SMARTAPNEA the length of a record does not wrap: it is at
  least the header and the four bytes of the length field.
\<close>

lemma dive_nbytes_bound:
  assumes "model \<noteq> SMARTAPNEA"
    and "dive_sizes model mode = (headersize, samplesize, fingerprint)"
    and "uint nsamples < 0x10000"
  shows "uint headersize + 4 \<le> uint (dive_nbytes model buffer hdr headersize samplesize nsamples)"
proof -
  note b = dive_sizes_bounds[OF assms(2)]
  have hs: "uint headersize \<le> 0x84" using b by (simp add: word_le_def)
  have ss: "uint samplesize \<le> 14" using b by (simp add: word_le_def)
  have m: "uint (nsamples * samplesize) = uint nsamples * uint samplesize"
  proof -
    have "uint nsamples * uint samplesize \<le> 0xFFFF * 14"
      using assms(3) ss by (intro mult_mono) simp_all
    then have "uint nsamples * uint samplesize < 2 ^ 32" by simp
    then show ?thesis by (simp add: uint_word_ariths)
  qed
  have m0: "0 \<le> uint nsamples * uint samplesize" by simp
  have mb: "uint nsamples * uint samplesize \<le> 0xFFFF * 14"
    using assms(3) ss by (intro mult_mono) simp_all
  have base: "uint (4 + headersize + nsamples * samplesize) =
                4 + uint headersize + uint nsamples * uint samplesize"
    using hs mb m0 by (simp add: uint_word_ariths m)
  have d: "uint (nsamples div 4 * 8) = uint nsamples div 4 * 8"
  proof -
    have q: "uint (nsamples div 4) = uint nsamples div 4" by (simp add: uint_div)
    have "uint (nsamples div 4 * 8) = (uint (nsamples div 4) * 8) mod 2 ^ 32"
      by (simp add: uint_word_ariths)
    also have "\<dots> = (uint nsamples div 4 * 8) mod 2 ^ 32" unfolding q ..
    also have "\<dots> = uint nsamples div 4 * 8"
    proof (rule mod_pos_pos_trivial)
      have "0 \<le> uint nsamples div 4"
        using uint_ge_0[of nsamples] by arith
      then show "0 \<le> uint nsamples div 4 * 8" by simp
      have "uint nsamples div 4 \<le> uint nsamples"
        using uint_ge_0[of nsamples] by arith
      with assms(3) show "uint nsamples div 4 * 8 < 2 ^ 32" by simp
    qed
    finally show ?thesis .
  qed
  have d0: "0 \<le> uint nsamples div 4 * 8"
  proof -
    have "0 \<le> uint nsamples div 4"
      using uint_ge_0[of nsamples] by arith
    then show ?thesis by simp
  qed
  have db: "uint nsamples div 4 * 8 \<le> 0x80000"
  proof -
    have "uint nsamples div 4 \<le> uint nsamples"
      using uint_ge_0[of nsamples] by arith
    with assms(3) show ?thesis by simp
  qed
  have full: "uint (4 + headersize + nsamples * samplesize + nsamples div 4 * 8) =
                4 + uint headersize + uint nsamples * uint samplesize + uint nsamples div 4 * 8"
  proof -
    have "uint (4 + headersize + nsamples * samplesize + nsamples div 4 * 8) =
            (uint (4 + headersize + nsamples * samplesize) + uint (nsamples div 4 * 8)) mod 2 ^ 32"
      by (simp add: uint_word_ariths)
    also have "\<dots> = (4 + uint headersize + uint nsamples * uint samplesize +
                       uint nsamples div 4 * 8) mod 2 ^ 32"
      unfolding base d ..
    also have "\<dots> = 4 + uint headersize + uint nsamples * uint samplesize +
                       uint nsamples div 4 * 8"
      using hs mb m0 d0 db by (intro mod_pos_pos_trivial) simp_all
    finally show ?thesis .
  qed
  show ?thesis
    using assms(1) base full m0 d0
    by (simp add: dive_nbytes_def Let_def)
qed


text \<open>
  For every model but the SMARTAPNEA an iteration that starts inside the buffer stays
  inside it.
\<close>

lemma foreach_body_in_bounds:
  assumes "model \<noteq> SMARTAPNEA" and "fs_offset st \<le> bufsize"
  shows "foreach_body model bufsize st \<noteq> Fault"
proof (cases "dive_header model + 4 \<le> fs_offset st")
  case False
  then show ?thesis by (simp add: foreach_body_def Let_def)
next
  case ent: True
  let ?h = "dive_header model"
  let ?off = "uint (fs_offset st)"
  let ?smart = "model = SMART \<or> model = SMARTAPNEA \<or> model = SMARTAIR"
  have ob: "?off \<le> uint bufsize" using assms(2) by (simp add: word_le_def)
  from ent have h4: "uint ?h + 4 \<le> ?off"
    using dive_header_uint[of model] by (simp add: word_le_def)
  have "0 \<le> ?off - uint ?h" using h4 by simp
  moreover have "?off - uint ?h + uint ?h \<le> uint bufsize" using ob by simp
  ultimately obtain st1 where r1: "rb_read_into bufsize st (?off - uint ?h) ?h = Some st1"
    using rb_read_into_ok by blast
  show ?thesis
  proof (cases "fs_rc st1 = DC_STATUS_SUCCESS")
    case False
    then show ?thesis using ent r1 by (simp add: foreach_body_def Let_def)
  next
    case rc1: True
    let ?dtype = "array_uint16_le (load (fs_buffer st1)
                    (?off - uint ?h + (if ?smart then 2 else 0)) 2)"
    let ?ns = "array_uint16_le (load (fs_buffer st1)
                    (?off - uint ?h + (if ?smart then 0 else 2)) 2)"
    show ?thesis
    proof (cases "?ns = 0xFFFF \<or> ?dtype = 0xFFFF")
      case True
      then show ?thesis using ent r1 rc1 by (auto simp: foreach_body_def Let_def)
    next
      case nz: False
      obtain hs ss fpo where sz: "dive_sizes model (?dtype AND 0x03) = (hs, ss, fpo)"
        by (cases "dive_sizes model (?dtype AND 0x03)")
      note bd = dive_sizes_bounds[OF sz]
      show ?thesis
      proof (cases "fs_offset st < hs")
        case True
        then show ?thesis using ent r1 rc1 nz sz by (auto simp: foreach_body_def Let_def)
      next
        case False
        then have hso: "hs \<le> fs_offset st" by simp
        then have hsu: "uint hs \<le> ?off" by (simp add: word_le_def)
        have s2: "uint (hs - ?h) = uint hs - uint ?h" using bd by (simp add: uint_sub_le)
        have hh: "uint ?h \<le> uint hs" using bd by (simp add: word_le_def)
        have "0 \<le> ?off - uint hs" using hsu by simp
        moreover have "?off - uint hs + uint (hs - ?h) \<le> uint bufsize"
          unfolding s2 using ob uint_ge_0[of ?h] by linarith
        ultimately obtain st2 where
          r2: "rb_read_into bufsize st1 (?off - uint hs) (hs - ?h) = Some st2"
          using rb_read_into_ok by blast
        show ?thesis
        proof (cases "fs_rc st2 = DC_STATUS_SUCCESS")
          case False
          then show ?thesis using ent r1 rc1 nz sz hso r2
            by (auto simp: foreach_body_def Let_def not_less)
        next
          case rc2: True
          let ?nb = "dive_nbytes model (fs_buffer st2) (?off - uint hs) hs ss ?ns"
          from dive_nbytes_bound[OF assms(1) sz array_uint16_le_bound]
          have nb4: "uint hs + 4 \<le> uint ?nb" .
          show ?thesis
          proof (cases "fs_offset st < ?nb")
            case True
            then show ?thesis using ent r1 rc1 nz sz hso r2 rc2
              by (auto simp: foreach_body_def Let_def not_less)
          next
            case False
            then have nbo: "?nb \<le> fs_offset st" by simp
            then have nbu: "uint ?nb \<le> ?off" by (simp add: word_le_def)
            have hn: "hs \<le> ?nb" using nb4 by (simp add: word_le_def)
            have s3: "uint (?nb - hs) = uint ?nb - uint hs" using hn by (rule uint_sub_le)
            have "0 \<le> ?off - uint ?nb" using nbu by simp
            moreover have "?off - uint ?nb + uint (?nb - hs) \<le> uint bufsize"
              unfolding s3 using ob uint_ge_0[of hs] by linarith
            ultimately obtain st3 where
              r3: "rb_read_into bufsize st2 (?off - uint ?nb) (?nb - hs) = Some st3"
              using rb_read_into_ok by blast
            have so: "uint (fs_offset st - ?nb) = ?off - uint ?nb" using nbo by (rule uint_sub_le)
            have fpb: "uint fpo + 10 \<le> uint hs"
            proof -
              from bd have "fpo + 10 \<le> hs" "fpo \<le> 0x40" by simp_all
              then show ?thesis by (simp add: word_le_def uint_word_ariths)
            qed
            have t1: "\<not> uint bufsize < uint (fs_offset st - ?nb) + 4"
              unfolding so using nb4 ob uint_ge_0[of hs] by linarith
            have t2: "\<not> (uint (fs_offset st - ?nb) + uint ?nb - uint hs + uint fpo < 0 \<or>
                         uint bufsize <
                           uint (fs_offset st - ?nb) + uint ?nb - uint hs + uint fpo + 10)"
              unfolding so using hsu fpb ob uint_ge_0[of fpo] by linarith
            show ?thesis
            proof (cases "fs_rc st3 = DC_STATUS_SUCCESS")
              case False
              then show ?thesis using ent r1 rc1 nz sz hso r2 rc2 nbo r3
                by (auto simp: foreach_body_def Let_def not_less)
            next
              case rc3: True
              show ?thesis
              proof (cases "array_uint32_le (load (fs_buffer st3) (uint (fs_offset st - ?nb)) 4) = ?nb")
                case False
                then show ?thesis using ent r1 rc1 nz sz hso r2 rc2 nbo r3 rc3 t1
                  by (auto simp: foreach_body_def Let_def not_less)
              next
                case True
                then show ?thesis using ent r1 rc1 nz sz hso r2 rc2 nbo r3 rc3 t1 t2
                  by (auto simp: foreach_body_def Let_def not_less)
              qed
            qed
          qed
        qed
      qed
    qed
  qed
qed


lemma foreach_loop_in_bounds:
  "dev_model device \<noteq> SMARTAPNEA \<Longrightarrow> fs_offset st \<le> bufsize \<Longrightarrow>
     foreach_loop device bufsize callback userdata st dives \<noteq> Out_of_bounds"
proof (induction device bufsize callback userdata st dives rule: foreach_loop.induct)
  case (1 device bufsize callback userdata st dives)
  note nf = foreach_body_in_bounds[OF "1.prems"]
  show ?case
  proof (cases "foreach_body (dev_model device) bufsize st")
    case Fault
    with nf show ?thesis by simp
  next
    case (Stop s)
    then show ?thesis
      by (simp add: foreach_loop.simps[of device bufsize callback userdata st dives])
  next
    case (Dive dv st')
    from foreach_body_Dive_offset[OF Dive] have "fs_offset st' \<le> fs_offset st"
      by (simp add: order.strict_implies_order)
    then have le: "fs_offset st' \<le> bufsize" using "1.prems"(2) by (rule order_trans)
    show ?thesis
    proof (cases "dv_fingerprint dv = dev_fingerprint device")
      case True
      with Dive show ?thesis
        by (simp add: foreach_loop.simps[of device bufsize callback userdata st dives])
    next
      case ne: False
      show ?thesis
      proof (cases callback)
        case None
        from "1.IH"(1)[OF Dive ne None "1.prems"(1) le] Dive ne None
        show ?thesis
          by (simp add: foreach_loop.simps[of device bufsize None userdata st dives])
      next
        case (Some f)
        obtain c u1 where fu: "f dv userdata = (c, u1)" by (cases "f dv userdata")
        show ?thesis
        proof (cases c)
          case False
          with Dive ne Some fu show ?thesis
            by (simp add: foreach_loop.simps[of device bufsize "Some f" userdata st dives])
        next
          case True
          from "1.IH"(2)[OF Dive ne Some fu[symmetric] _ "1.prems"(1) le] True
          have "foreach_loop device bufsize callback u1 st' (dives @ [dv]) \<noteq> Out_of_bounds"
            by simp
          with Dive ne Some fu True show ?thesis
            by (simp add: foreach_loop.simps[of device bufsize "Some f" userdata st dives])
        qed
      qed
    qed
  qed
qed

text \<open>
  \<open>foreach\<close> of a session of any model but the SMARTAPNEA never reaches outside its
  scratch buffer.
\<close>

lemma foreach_in_bounds:
  assumes "dev_model device \<noteq> SMARTAPNEA"
  shows "mares_iconhd_device_foreach device env callback userdata \<noteq> Out_of_bounds"
proof (cases "mares_iconhd_device_read device 0x0C 4")
  case None
  then show ?thesis by (simp add: mares_iconhd_device_foreach_def)
next
  case (Some r)
  then obtain rc serial d1 where
    r: "mares_iconhd_device_read device 0x0C 4 = Some (rc, serial, d1)" by (cases r) auto
  show ?thesis
  proof (cases "foreach_eop d1 [0x2001, 0x3001] 0")
    case None
    with r show ?thesis
      by (simp add: mares_iconhd_device_foreach_def Let_def del: foreach_eop.simps)
  next
    case (Some q)
    then obtain rc2 eop d2 where
      e: "foreach_eop d1 [0x2001, 0x3001] 0 = Some (rc2, eop, d2)" by (cases q) auto
    from device_read_session[OF r] foreach_eop_session[OF e]
    have "same_session d2 device" by (blast intro: same_session_trans)
    then have m: "dev_model d2 \<noteq> SMARTAPNEA" using assms by (simp add: same_session_def)
    have "foreach_loop d2 bufsize callback userdata
            \<lparr>fs_rc = c, fs_rbstream = rb, fs_buffer = buf, fs_offset = bufsize\<rparr> []
          \<noteq> Out_of_bounds" for bufsize c rb buf
      by (rule foreach_loop_in_bounds[OF m]) simp
    then show ?thesis
      unfolding mares_iconhd_device_foreach_def Let_def r e option.case prod.case
      by (simp split: prod.splits del: foreach_eop.simps)
  qed
qed

text \<open>
  A SMARTAPNEA dive header (0x50 bytes) with no sample, settings 0 and a dive time of
  0x7FFFFFD6 at offset 0x24.
\<close>

definition apnea_header :: "byte list" where
  "apnea_header = replicate 0x24 0 @ [0xD6, 0xFF, 0xFF, 0x7F] @ replicate 0x28 0"

text \<open>
  C10. The walk does not stay inside the scratch buffer for every device memory. The
  offset decreases from one record to the next and every access of a session of another
  model lies inside the buffer (\<open>foreach_in_bounds\<close>), but for a
  SMARTAPNEA the length \<open>4 + headersize + nsamples * samplesize + divetime * samplerate * 2\<close>
  is computed in 32-bit unsigned arithmetic and wraps: with the header above it is 0, less
  than \<open>headersize\<close>. The test \<open>offset < nbytes\<close> lets it pass, and the third read of the
  iteration asks for \<open>nbytes - headersize = 0xFFFFFFB0\<close> bytes at \<open>buffer + offset\<close>, the
  end of the allocation of 0x36000 bytes.
\<close>

theorem foreach_apnea_overflow:
  "dive_sizes SMARTAPNEA 0 = (0x50, 14, 0x40) \<and>
   dive_nbytes SMARTAPNEA (store (\<lambda>k. 0) (0x36000 - 0x50) apnea_header) (0x36000 - 0x50) 0x50 14 0 = 0 \<and>
   \<not> (0x36000 :: 32 word) < 0 \<and>
   (0 :: 32 word) - 0x50 = 0xFFFFFFB0 \<and>
   mares_iconhd_device_foreach
     (pointer_device SMARTAPNEA [[0x78, 0x56, 0x34, 0x12], [0x00, 0xB0, 0x00, 0x00]])
     (ring_env (0xB000 - 0x50) apnea_header) None () = Out_of_bounds"
  by code_simp

end
